theory Spec2Isabelle
  imports Main "HOL-Library.Word" "HOL-Library.Sublist"
begin

section \<open>JavaScript strings\<close>

text \<open>
  A JavaScript string is a sequence of UTF-16 code units; \<open>length\<close>, \<open>charAt\<close>,
  \<open>slice\<close> and \<open>split\<close> count and cut code units. String literals of the source are
  written \<open>js ''...''\<close>.
\<close>

type_synonym code_unit = "16 word"
type_synonym jsstring = "code_unit list"

definition js :: "string \<Rightarrow> jsstring" where
  "js s = map of_char s"

text \<open>
  The characters matched by \<open>\s\<close> in a regular expression and stripped by
  \<open>String.prototype.trim\<close>: WhiteSpace and LineTerminator of ECMAScript (TAB, LF, VT,
  FF, CR, SP, NBSP, the other space separators of Unicode, LS, PS and the BOM).
\<close>

definition isWhiteSpace :: "code_unit \<Rightarrow> bool" where
  "isWhiteSpace c \<longleftrightarrow>
     (0x09 \<le> c \<and> c \<le> 0x0D) \<or> c = 0x20 \<or> c = 0xA0 \<or> c = 0x1680 \<or>
     (0x2000 \<le> c \<and> c \<le> 0x200A) \<or> c = 0x2028 \<or> c = 0x2029 \<or>
     c = 0x202F \<or> c = 0x205F \<or> c = 0x3000 \<or> c = 0xFEFF"

text \<open>\<open>s.replace(/\s+/g, ' ')\<close>: every maximal run of white space becomes one space.\<close>

function replaceWhiteSpaceRuns :: "jsstring \<Rightarrow> jsstring" where
  "replaceWhiteSpaceRuns [] = []"
| "replaceWhiteSpaceRuns (c # cs) =
     (if isWhiteSpace c then 0x20 # replaceWhiteSpaceRuns (dropWhile isWhiteSpace cs)
      else c # replaceWhiteSpaceRuns cs)"
  by pat_completeness auto
termination
  by (relation "measure length") (auto simp: length_dropWhile_le less_Suc_eq_le)

text \<open>\<open>s.trim()\<close>\<close>

definition trim :: "jsstring \<Rightarrow> jsstring" where
  "trim s = rev (dropWhile isWhiteSpace (rev (dropWhile isWhiteSpace s)))"

text \<open>
  \<open>s.split(sep)\<close> for a separator of one code unit. The result is never empty
  (\<open>''.split(',')\<close> is \<open>['']\<close>), so the first case of the inner \<open>case\<close> is not reached.
\<close>

fun split :: "code_unit \<Rightarrow> jsstring \<Rightarrow> jsstring list" where
  "split sep [] = [[]]"
| "split sep (c # cs) =
     (if c = sep then [] # split sep cs
      else (case split sep cs of [] \<Rightarrow> [[c]] | w # ws \<Rightarrow> (c # w) # ws))"

text \<open>\<open>xs.join(sep)\<close> on an array of strings\<close>

fun join :: "jsstring \<Rightarrow> jsstring list \<Rightarrow> jsstring" where
  "join sep [] = []"
| "join sep [x] = x"
| "join sep (x # y # ys) = x @ sep @ join sep (y # ys)"

text \<open>\<open>s.startsWith(p)\<close>, \<open>s.charAt(i)\<close>, \<open>s.slice(i)\<close> for \<open>i \<ge> 0\<close>\<close>

definition startsWith :: "jsstring \<Rightarrow> jsstring \<Rightarrow> bool" where
  "startsWith s p \<longleftrightarrow> take (length p) s = p"

definition charAt :: "jsstring \<Rightarrow> nat \<Rightarrow> jsstring" where
  "charAt s i = take 1 (drop i s)"

definition slice :: "jsstring \<Rightarrow> nat \<Rightarrow> jsstring" where
  "slice s i = drop i s"

text \<open>
  \<open>toUpperCase\<close> and \<open>toLowerCase\<close> follow the Unicode case mappings. They are written
  out for the Basic Latin and Latin-1 Supplement blocks (code units up to \<open>U+00FF\<close>),
  where they are exact: \<open>a\<close>-\<open>z\<close> and the accented letters move by \<open>0x20\<close>, the micro
  sign \<open>U+00B5\<close> upper-cases to \<open>U+039C\<close>, \<open>U+00FF\<close> to \<open>U+0178\<close>, and the sharp s
  \<open>U+00DF\<close> to the two letters \<open>SS\<close>. The tables for the other blocks are not part of
  this development: such a code unit is passed through unchanged, and every statement
  below that depends on the case of a character is made for titles within \<open>U+00FF\<close>.
\<close>

definition upperUnit :: "code_unit \<Rightarrow> jsstring" where
  "upperUnit c =
     (if 0x61 \<le> c \<and> c \<le> 0x7A then [c - 0x20]
      else if c = 0xB5 then [0x39C]
      else if c = 0xDF then [0x53, 0x53]
      else if 0xE0 \<le> c \<and> c \<le> 0xFE \<and> c \<noteq> 0xF7 then [c - 0x20]
      else if c = 0xFF then [0x178]
      else [c])"

definition lowerUnit :: "code_unit \<Rightarrow> code_unit" where
  "lowerUnit c =
     (if 0x41 \<le> c \<and> c \<le> 0x5A then c + 0x20
      else if 0xC0 \<le> c \<and> c \<le> 0xDE \<and> c \<noteq> 0xD7 then c + 0x20
      else c)"

definition toUpperCase :: "jsstring \<Rightarrow> jsstring" where
  "toUpperCase s = concat (map upperUnit s)"

definition toLowerCase :: "jsstring \<Rightarrow> jsstring" where
  "toLowerCase s = map lowerUnit s"

text \<open>A non-negative integer in a template literal: its decimal digits.\<close>

function numberToString :: "nat \<Rightarrow> jsstring" where
  "numberToString n =
     (if n < 10 then [0x30 + of_nat n]
      else numberToString (n div 10) @ [0x30 + of_nat (n mod 10)])"
  by pat_completeness auto
termination
  by (relation "measure id") auto

declare numberToString.simps [simp del]

text \<open>The truth value of an optional string: \<open>undefined\<close>, \<open>null\<close> and \<open>''\<close> are falsy.\<close>

definition truthy :: "jsstring option \<Rightarrow> bool" where
  "truthy v = (case v of None \<Rightarrow> False | Some s \<Rightarrow> s \<noteq> [])"


section \<open>Products, the remote catalogue and the process state\<close>

record variant =
  inventory_quantity :: "int option"

text \<open>
  The attributes of a product the program reads. \<open>product_id\<close> is the id as a template
  literal renders it. \<open>None\<close> stands for an attribute that is \<open>null\<close> or missing.
\<close>

record product =
  product_id :: jsstring
  title :: jsstring
  tags :: jsstring
  body_html :: "jsstring option"
  vendor :: "jsstring option"
  product_type :: "jsstring option"
  variants :: "variant list"

text \<open>The \<open>product\<close> object sent by a \<open>PUT\<close>; \<open>ProductUpdates\<close> carries the bulk-edit payload.\<close>

datatype payload =
  ProductTitle jsstring
| ProductTags jsstring
| ProductBodyHtml jsstring
| ProductUpdates jsstring

datatype request = Get jsstring | Put jsstring payload

text \<open>
  An awaited call either yields its value or throws; \<open>Inl m\<close> is a thrown error whose
  \<open>message\<close> is \<open>m\<close>. The catalogue is outside the program: its answer to a request may
  depend on the requests sent before.
\<close>

type_synonym 'a attempt = "jsstring + 'a"

record shopify =
  get_products :: "request list \<Rightarrow> jsstring \<Rightarrow> product list attempt"
  put_product :: "request list \<Rightarrow> jsstring \<Rightarrow> payload \<Rightarrow> unit attempt"

record config =
  SHOPIFY_STORE :: "jsstring option"
  SHOPIFY_ACCESS_TOKEN :: "jsstring option"

record entry =
  timestamp :: nat
  action :: jsstring
  details :: jsstring
  status :: jsstring

text \<open>
  The state of the process: the activity log, the requests sent to the catalogue so far
  (oldest first), and the wall clock. \<open>clock w n\<close> is the instant that the \<open>n\<close>-th
  \<open>new Date()\<close> of the process reads, and \<open>ticks w\<close> the number of readings so far.
\<close>

record world =
  automationLogs :: "entry list"
  calls :: "request list"
  clock :: "nat \<Rightarrow> nat"
  ticks :: nat

definition shopifyAPI_get :: "shopify \<Rightarrow> jsstring \<Rightarrow> world \<Rightarrow> product list attempt \<times> world" where
  "shopifyAPI_get api url w =
     (get_products api (calls w) url, w\<lparr>calls := calls w @ [Get url]\<rparr>)"

definition shopifyAPI_put :: "shopify \<Rightarrow> jsstring \<Rightarrow> payload \<Rightarrow> world \<Rightarrow> unit attempt \<times> world" where
  "shopifyAPI_put api url data w =
     (put_product api (calls w) url data, w\<lparr>calls := calls w @ [Put url data]\<rparr>)"

text \<open>
  \<open>logActivity\<close>: \<open>unshift\<close> the entry, then \<open>pop\<close> when the log has more than 100. The
  line it prints with \<open>console.log\<close> changes nothing of the state and is left out.
\<close>

definition logActivity :: "jsstring \<Rightarrow> jsstring \<Rightarrow> jsstring \<Rightarrow> world \<Rightarrow> world" where
  "logActivity act det st w =
     (let e = \<lparr>timestamp = clock w (ticks w), action = act, details = det, status = st\<rparr>;
          logs = e # automationLogs w
      in w\<lparr>automationLogs := (if length logs > 100 then butlast logs else logs),
           ticks := Suc (ticks w)\<rparr>)"

text \<open>
  \<open>for (const x of xs) { ... }\<close> with an awaiting body: the body reads and writes the
  loop's local variable and the process state; when it throws, the loop ends, the local
  variable is lost and the process state stays as the body left it.
\<close>

fun forOf :: "('a \<Rightarrow> 'l \<Rightarrow> world \<Rightarrow> 'l attempt \<times> world) \<Rightarrow> 'a list \<Rightarrow> 'l \<Rightarrow> world \<Rightarrow> 'l attempt \<times> world" where
  "forOf body [] l w = (Inr l, w)"
| "forOf body (x # xs) l w =
     (case body x l w of
        (Inl e, w') \<Rightarrow> (Inl e, w')
      | (Inr l', w') \<Rightarrow> forOf body xs l' w')"

definition configured :: "config \<Rightarrow> bool" where
  "configured cfg \<longleftrightarrow> truthy (SHOPIFY_STORE cfg) \<and> truthy (SHOPIFY_ACCESS_TOKEN cfg)"

definition product_url :: "jsstring \<Rightarrow> jsstring" where
  "product_url i = js ''/products/'' @ i @ js ''.json''"

section \<open>The automation routines\<close>

text \<open>
  Each routine is modelled as one invocation running from its first statement to its
  last: the state it starts in, the catalogue's answers, the state it ends in. Two
  invocations that overlap in time, which the program does not prevent, are outside
  this model.
\<close>

subsection \<open>Title optimisation\<close>

definition titleCaseWord :: "jsstring \<Rightarrow> jsstring" where
  "titleCaseWord word = toUpperCase (charAt word 0) @ toLowerCase (slice word 1)"

definition optimizeTitle :: "jsstring \<Rightarrow> jsstring" where
  "optimizeTitle originalTitle =
     join (js '' '')
       (map titleCaseWord (split 0x20 (trim (replaceWhiteSpaceRuns originalTitle))))"

definition optimizeTitles_body :: "shopify \<Rightarrow> product \<Rightarrow> nat \<Rightarrow> world \<Rightarrow> nat attempt \<times> world" where
  "optimizeTitles_body api p optimized w =
     (let originalTitle = title p;
          optimizedTitle = optimizeTitle originalTitle
      in if originalTitle \<noteq> optimizedTitle then
           (case shopifyAPI_put api (product_url (product_id p)) (ProductTitle optimizedTitle) w of
              (Inl e, w') \<Rightarrow> (Inl e, w')
            | (Inr _, w') \<Rightarrow>
                (Inr (optimized + 1),
                 logActivity (js ''auto_optimize_title'')
                   (originalTitle @ js '' -> '' @ optimizedTitle) (js ''success'') w'))
         else (Inr optimized, w))"

definition optimizeTitles :: "shopify \<Rightarrow> config \<Rightarrow> world \<Rightarrow> world" where
  "optimizeTitles api cfg w =
     (if \<not> truthy (SHOPIFY_STORE cfg) \<or> \<not> truthy (SHOPIFY_ACCESS_TOKEN cfg) then w
      else case shopifyAPI_get api (js ''/products.json?limit=250'') w of
        (Inl e, w1) \<Rightarrow> logActivity (js ''title_optimization'') e (js ''error'') w1
      | (Inr products, w1) \<Rightarrow>
          (case forOf (optimizeTitles_body api) products 0 w1 of
             (Inl e, w2) \<Rightarrow> logActivity (js ''title_optimization'') e (js ''error'') w2
           | (Inr optimized, w2) \<Rightarrow>
               logActivity (js ''title_optimization_complete'')
                 (js ''Optimized '' @ numberToString optimized @ js '' product titles'')
                 (js ''success'') w2))"

subsection \<open>Inventory tags\<close>

text \<open>
  \<open>inventory_quantity\<close> is an integer of the catalogue (negative when oversold) or
  missing; the sum is taken over the integers.
\<close>

definition totalInventory :: "product \<Rightarrow> int" where
  "totalInventory p =
     foldl (\<lambda>sum v. sum + (case inventory_quantity v of None \<Rightarrow> 0 | Some q \<Rightarrow> q)) 0 (variants p)"

text \<open>
  The code adds the quantities as JavaScript numbers, which are IEEE 754 doubles. Every
  integer of absolute value up to \<open>2^53\<close> is a double, and two of them are added exactly
  when their sum is again in that range. \<open>exact_sums s vs\<close> says that every quantity of
  \<open>vs\<close> and every partial sum of the loop started at \<open>s\<close> is in that range: then the sum
  over the integers is the number that the code computes. Outside that range the sum
  of the code is rounded, and nothing is stated about it here.
\<close>

fun exact_sums :: "int \<Rightarrow> variant list \<Rightarrow> bool" where
  "exact_sums s [] = True"
| "exact_sums s (v # vs) =
     (let q = (case inventory_quantity v of None \<Rightarrow> 0 | Some q \<Rightarrow> q)
      in \<bar>q\<bar> \<le> 2 ^ 53 \<and> \<bar>s + q\<bar> \<le> 2 ^ 53 \<and> exact_sums (s + q) vs)"

definition updatedTags :: "product \<Rightarrow> jsstring" where
  "updatedTags p =
     (let newTags = filter (\<lambda>t. \<not> startsWith t (js ''stock-'')) (map trim (split 0x2C (tags p)));
          newTags' =
            (if totalInventory p = 0 then newTags @ [js ''stock-out'']
             else if totalInventory p < 10 then newTags @ [js ''stock-low'']
             else newTags @ [js ''stock-available''])
      in join (js '', '') newTags')"

definition updateInventoryTags_body :: "shopify \<Rightarrow> product \<Rightarrow> nat \<Rightarrow> world \<Rightarrow> nat attempt \<times> world" where
  "updateInventoryTags_body api p updated w =
     (if tags p \<noteq> updatedTags p then
        (case shopifyAPI_put api (product_url (product_id p)) (ProductTags (updatedTags p)) w of
           (Inl e, w') \<Rightarrow> (Inl e, w')
         | (Inr _, w') \<Rightarrow>
             (Inr (updated + 1),
              logActivity (js ''auto_inventory_tag'')
                (js ''Product '' @ product_id p @ js '': '' @ updatedTags p) (js ''success'') w'))
      else (Inr updated, w))"

definition updateInventoryTags :: "shopify \<Rightarrow> config \<Rightarrow> world \<Rightarrow> world" where
  "updateInventoryTags api cfg w =
     (if \<not> truthy (SHOPIFY_STORE cfg) \<or> \<not> truthy (SHOPIFY_ACCESS_TOKEN cfg) then w
      else case shopifyAPI_get api (js ''/products.json?limit=250'') w of
        (Inl e, w1) \<Rightarrow> logActivity (js ''inventory_tagging'') e (js ''error'') w1
      | (Inr products, w1) \<Rightarrow>
          (case forOf (updateInventoryTags_body api) products 0 w1 of
             (Inl e, w2) \<Rightarrow> logActivity (js ''inventory_tagging'') e (js ''error'') w2
           | (Inr updated, w2) \<Rightarrow>
               logActivity (js ''inventory_tagging_complete'')
                 (js ''Updated '' @ numberToString updated @ js '' product tags'')
                 (js ''success'') w2))"

subsection \<open>SEO descriptions\<close>

text \<open>\<open>!product.body_html || product.body_html.length < 50\<close>\<close>

definition qualifies :: "product \<Rightarrow> bool" where
  "qualifies p \<longleftrightarrow>
     (case body_html p of None \<Rightarrow> True | Some b \<Rightarrow> b = [] \<or> length b < 50)"

definition seoDescription :: "product \<Rightarrow> jsstring" where
  "seoDescription p =
     js ''Shop '' @ title p @ js '' at TechHive. ''
       @ (case product_type p of
            None \<Rightarrow> js ''''
          | Some t \<Rightarrow> if t \<noteq> [] then js ''Category: '' @ t @ js ''.'' else js '''')
       @ js '' ''
       @ (case vendor p of
            None \<Rightarrow> js ''''
          | Some v \<Rightarrow> if v \<noteq> [] then js ''Brand: '' @ v @ js ''.'' else js '''')
       @ js '' Fast shipping and great prices!''"

definition generateSEODescriptions_body :: "shopify \<Rightarrow> product \<Rightarrow> nat \<Rightarrow> world \<Rightarrow> nat attempt \<times> world" where
  "generateSEODescriptions_body api p updated w =
     (if qualifies p then
        (case shopifyAPI_put api (product_url (product_id p)) (ProductBodyHtml (seoDescription p)) w of
           (Inl e, w') \<Rightarrow> (Inl e, w')
         | (Inr _, w') \<Rightarrow>
             (Inr (updated + 1),
              logActivity (js ''auto_seo'')
                (js ''Generated description for '' @ title p) (js ''success'') w'))
      else (Inr updated, w))"

definition generateSEODescriptions :: "shopify \<Rightarrow> config \<Rightarrow> world \<Rightarrow> world" where
  "generateSEODescriptions api cfg w =
     (if \<not> truthy (SHOPIFY_STORE cfg) \<or> \<not> truthy (SHOPIFY_ACCESS_TOKEN cfg) then w
      else case shopifyAPI_get api (js ''/products.json?limit=250'') w of
        (Inl e, w1) \<Rightarrow> logActivity (js ''seo_generation'') e (js ''error'') w1
      | (Inr products, w1) \<Rightarrow>
          (case forOf (generateSEODescriptions_body api) products 0 w1 of
             (Inl e, w2) \<Rightarrow> logActivity (js ''seo_generation'') e (js ''error'') w2
           | (Inr updated, w2) \<Rightarrow>
               logActivity (js ''seo_generation_complete'')
                 (js ''Generated '' @ numberToString updated @ js '' SEO descriptions'')
                 (js ''success'') w2))"


section \<open>The HTTP handlers\<close>

record bulk_result =
  result_id :: jsstring
  result_status :: jsstring
  result_error :: "jsstring option"

datatype response_body =
  MessageProducts jsstring "product list"
| Products "product list"
| Error jsstring
| BulkEdit "bulk_result list" nat nat

record response =
  status_code :: nat
  json :: response_body

text \<open>\<open>GET /api/products\<close>\<close>

definition get_api_products :: "shopify \<Rightarrow> config \<Rightarrow> world \<Rightarrow> response \<times> world" where
  "get_api_products api cfg w =
     (if \<not> truthy (SHOPIFY_STORE cfg) \<or> \<not> truthy (SHOPIFY_ACCESS_TOKEN cfg) then
        (\<lparr>status_code = 200,
          json = MessageProducts
            (js ''Shopify not configured. Set SHOPIFY_STORE and SHOPIFY_ACCESS_TOKEN env vars.'') []\<rparr>,
         w)
      else case shopifyAPI_get api (js ''/products.json?limit=250'') w of
        (Inr products, w1) \<Rightarrow>
          (\<lparr>status_code = 200, json = Products products\<rparr>,
           logActivity (js ''fetch_products'')
             (js ''Fetched '' @ numberToString (length products) @ js '' products'')
             (js ''success'') w1)
      | (Inl e, w1) \<Rightarrow>
          (\<lparr>status_code = 500, json = Error e\<rparr>,
           logActivity (js ''fetch_products'') e (js ''error'') w1))"

text \<open>
  \<open>POST /api/bulk-edit\<close>. \<open>productIds\<close> is \<open>None\<close> when the request body has none; each
  id is the id as a template literal renders it, and \<open>updates\<close> is the shared payload.
\<close>

record bulk_request =
  productIds :: "jsstring list option"
  updates :: jsstring

definition bulk_edit_body :: "shopify \<Rightarrow> jsstring \<Rightarrow> jsstring \<Rightarrow> bulk_result list \<Rightarrow> world \<Rightarrow> bulk_result list attempt \<times> world" where
  "bulk_edit_body api upd i results w =
     (case shopifyAPI_put api (product_url i) (ProductUpdates upd) w of
        (Inr _, w') \<Rightarrow>
          (Inr (results @ [\<lparr>result_id = i, result_status = js ''success'', result_error = None\<rparr>]),
           logActivity (js ''bulk_update'') (js ''Updated product '' @ i) (js ''success'') w')
      | (Inl e, w') \<Rightarrow>
          (Inr (results @ [\<lparr>result_id = i, result_status = js ''error'', result_error = Some e\<rparr>]),
           logActivity (js ''bulk_update'')
             (js ''Failed to update '' @ i @ js '': '' @ e) (js ''error'') w'))"

text \<open>The handler has no \<open>try\<close> around the loop: an error leaving it sends no response.\<close>

definition post_api_bulk_edit :: "shopify \<Rightarrow> bulk_request \<Rightarrow> world \<Rightarrow> response option \<times> world" where
  "post_api_bulk_edit api req w =
     (case forOf (bulk_edit_body api (updates req))
             (case productIds req of None \<Rightarrow> [] | Some ids \<Rightarrow> ids) [] w of
        (Inl e, w') \<Rightarrow> (None, w')
      | (Inr results, w') \<Rightarrow>
          (Some \<lparr>status_code = 200,
                 json = BulkEdit results
                   (case productIds req of None \<Rightarrow> 0 | Some ids \<Rightarrow> length ids)
                   (length (filter (\<lambda>r. result_status r = js ''success'') results))\<rparr>,
           w'))"


section \<open>The specification's wording\<close>

text \<open>
  The operations the specification names, written independently of the code above:
  the pieces of a string between separators, a string stripped of the white space at
  its ends, strings joined by a separator, and the words of a string (its maximal runs
  of characters other than white space).
\<close>

function spec_pieces :: "code_unit \<Rightarrow> jsstring \<Rightarrow> jsstring list" where
  "spec_pieces sep s =
     (if sep \<in> set s
      then takeWhile (\<lambda>c. c \<noteq> sep) s # spec_pieces sep (tl (dropWhile (\<lambda>c. c \<noteq> sep) s))
      else [s])"
  by pat_completeness auto
termination
proof (relation "measure (\<lambda>(sep, s). length s)")
  show "wf (measure (\<lambda>(sep, s). length s))" by simp
next
  fix sep :: code_unit and s :: jsstring
  assume "sep \<in> set s"
  then have "dropWhile (\<lambda>c. c \<noteq> sep) s \<noteq> []" by simp
  then have "length (tl (dropWhile (\<lambda>c. c \<noteq> sep) s)) < length (dropWhile (\<lambda>c. c \<noteq> sep) s)"
    by simp
  also have "\<dots> \<le> length s" by (rule length_dropWhile_le)
  finally show "((sep, tl (dropWhile (\<lambda>c. c \<noteq> sep) s)), (sep, s)) \<in> measure (\<lambda>(sep, s). length s)"
    by simp
qed

declare spec_pieces.simps [simp del]

definition spec_strip :: "jsstring \<Rightarrow> jsstring" where
  "spec_strip s = dropWhile isWhiteSpace (rev (dropWhile isWhiteSpace (rev s)))"

definition spec_joined :: "jsstring \<Rightarrow> jsstring list \<Rightarrow> jsstring" where
  "spec_joined sep xs = (case xs of [] \<Rightarrow> [] | x # r \<Rightarrow> x @ concat (map (\<lambda>y. sep @ y) r))"

function spec_words :: "jsstring \<Rightarrow> jsstring list" where
  "spec_words [] = []"
| "spec_words (c # cs) =
     (if isWhiteSpace c then spec_words cs
      else (c # takeWhile (\<lambda>d. \<not> isWhiteSpace d) cs)
             # spec_words (dropWhile (\<lambda>d. \<not> isWhiteSpace d) cs))"
  by pat_completeness auto
termination
  by (relation "measure length") (auto simp: length_dropWhile_le less_Suc_eq_le)




text \<open>Inventory tagging: the tags that survive, and the sum over the variants.\<close>

definition spec_surviving_tags :: "product \<Rightarrow> jsstring list" where
  "spec_surviving_tags p =
     filter (\<lambda>t. \<not> prefix (js ''stock-'') t) (map spec_strip (spec_pieces 0x2C (tags p)))"

definition spec_total :: "product \<Rightarrow> int" where
  "spec_total p = (\<Sum>v\<leftarrow>variants p. case inventory_quantity v of None \<Rightarrow> 0 | Some q \<Rightarrow> q)"

text \<open>
  SEO generation: the template as the specification gives it, each clause with its own
  trailing space; and the template with a single space where a clause is left out.
\<close>

definition spec_seoDescription :: "product \<Rightarrow> jsstring" where
  "spec_seoDescription p =
     js ''Shop '' @ title p @ js '' at TechHive. ''
       @ (if truthy (product_type p) then js ''Category: '' @ the (product_type p) @ js ''. '' else [])
       @ (if truthy (vendor p) then js ''Brand: '' @ the (vendor p) @ js ''. '' else [])
       @ js ''Fast shipping and great prices!''"

definition clause_or_space :: "jsstring \<Rightarrow> jsstring option \<Rightarrow> jsstring" where
  "clause_or_space label v =
     (if truthy v then label @ the v @ js ''. '' else js '' '')"

text \<open>The write-backs of the qualifying products of a list, in order.\<close>

definition seo_requests :: "product list \<Rightarrow> request list" where
  "seo_requests ps =
     map (\<lambda>p. Put (product_url (product_id p)) (ProductBodyHtml (seoDescription p)))
       (filter qualifies ps)"

text \<open>
  The activity log: a sequence of \<open>logActivity\<close> calls, given by their arguments, and the
  entries they make when the first of them takes reading \<open>t\<close> of the clock.
\<close>

fun entries_from :: "(nat \<Rightarrow> nat) \<Rightarrow> nat \<Rightarrow> (jsstring \<times> jsstring \<times> jsstring) list \<Rightarrow> entry list" where
  "entries_from clk t [] = []"
| "entries_from clk t ((act, det, st) # es) =
     \<lparr>timestamp = clk t, action = act, details = det, status = st\<rparr> # entries_from clk (Suc t) es"

definition record_all :: "(jsstring \<times> jsstring \<times> jsstring) list \<Rightarrow> world \<Rightarrow> world" where
  "record_all es w = fold (\<lambda>(act, det, st). logActivity act det st) es w"


text \<open>
  Bulk edit: the requests for a list of ids, and the result entry for an id whose update
  is sent after the requests \<open>h\<close>.
\<close>

definition bulk_requests :: "jsstring \<Rightarrow> jsstring list \<Rightarrow> request list" where
  "bulk_requests upd ids = map (\<lambda>i. Put (product_url i) (ProductUpdates upd)) ids"

definition bulk_entry :: "shopify \<Rightarrow> jsstring \<Rightarrow> request list \<Rightarrow> jsstring \<Rightarrow> bulk_result" where
  "bulk_entry api upd h i =
     (case put_product api h (product_url i) (ProductUpdates upd) of
        Inr _ \<Rightarrow> \<lparr>result_id = i, result_status = js ''success'', result_error = None\<rparr>
      | Inl e \<Rightarrow> \<lparr>result_id = i, result_status = js ''error'', result_error = Some e\<rparr>)"


section \<open>Concrete catalogues, products and states\<close>

text \<open>A catalogue with no products that accepts every update, and a process just started.\<close>

definition always_ok :: shopify where
  "always_ok = \<lparr>get_products = (\<lambda>h u. Inr []), put_product = (\<lambda>h u d. Inr ())\<rparr>"

text \<open>A catalogue that lists given products and accepts every update.\<close>

definition listing :: "product list \<Rightarrow> shopify" where
  "listing ps = \<lparr>get_products = (\<lambda>h u. Inr ps), put_product = (\<lambda>h u d. Inr ())\<rparr>"

definition started :: world where
  "started = \<lparr>automationLogs = [], calls = [], clock = (\<lambda>n. n), ticks = 0\<rparr>"

definition no_store :: config where
  "no_store = \<lparr>SHOPIFY_STORE = None, SHOPIFY_ACCESS_TOKEN = Some (js ''shpat_1'')\<rparr>"

text \<open>A product with a description of 49 characters, no product type and vendor Acme.\<close>

definition acme_product :: product where
  "acme_product =
     \<lparr>product_id = js ''7'', title = js ''X'', tags = js '''',
      body_html = Some (replicate 49 0x61), vendor = Some (js ''Acme''),
      product_type = Some (js ''''), variants = []\<rparr>"

text \<open>A product with nine items in stock over three variants, tagged \<open>stock-out\<close>.\<close>

definition low_stock_product :: product where
  "low_stock_product =
     \<lparr>product_id = js ''42'', title = js ''Mouse'', tags = js ''sale,stock-out , new'',
      body_html = None, vendor = None, product_type = None,
      variants = [\<lparr>inventory_quantity = Some 4\<rparr>, \<lparr>inventory_quantity = None\<rparr>,
                  \<lparr>inventory_quantity = Some 5\<rparr>]\<rparr>"

text \<open>101 log events, pairwise different.\<close>

definition many_events :: "(jsstring \<times> jsstring \<times> jsstring) list" where
  "many_events = map (\<lambda>n. (js ''bulk_update'', replicate n 0x2E, js ''success'')) [0..<101]"

text \<open>
  A product whose description has 50 characters, and one with ten items in stock that
  is tagged accordingly.
\<close>

definition described_product :: product where
  "described_product =
     \<lparr>product_id = js ''8'', title = js ''Keyboard'', tags = js ''new'',
      body_html = Some (replicate 50 0x61), vendor = Some (js ''Acme''),
      product_type = Some (js ''Input''), variants = []\<rparr>"

definition well_stocked_product :: product where
  "well_stocked_product =
     \<lparr>product_id = js ''43'', title = js ''Usb Hub'', tags = js ''stock-available'',
      body_html = None, vendor = None, product_type = None,
      variants = [\<lparr>inventory_quantity = Some 10\<rparr>]\<rparr>"

text \<open>
  An oversold product, five items short on one variant with two in stock on the other,
  still tagged \<open>stock-out\<close>.
\<close>

definition oversold_product :: product where
  "oversold_product =
     \<lparr>product_id = js ''44'', title = js ''Webcam'', tags = js ''clearance, stock-out'',
      body_html = None, vendor = None, product_type = None,
      variants = [\<lparr>inventory_quantity = Some (- 5)\<rparr>, \<lparr>inventory_quantity = Some 2\<rparr>]\<rparr>"


text \<open>
  A configured shop, two products whose titles need optimising, and a catalogue that
  lists given products and rejects every update of one product with a given message.
\<close>

definition shop :: config where
  "shop = \<lparr>SHOPIFY_STORE = Some (js ''techhive.myshopify.com''),
            SHOPIFY_ACCESS_TOKEN = Some (js ''shpat_1'')\<rparr>"

definition two_titles :: "product list" where
  "two_titles =
     [\<lparr>product_id = js ''1'', title = js ''  wireLESS   mouse '', tags = js ''stock-available'',
       body_html = None, vendor = None, product_type = None, variants = []\<rparr>,
      \<lparr>product_id = js ''2'', title = js ''usb hub'', tags = js ''stock-available'',
       body_html = None, vendor = None, product_type = None, variants = []\<rparr>]"

definition rejecting :: "product list \<Rightarrow> jsstring \<Rightarrow> jsstring \<Rightarrow> shopify" where
  "rejecting ps i msg =
     \<lparr>get_products = (\<lambda>h u. Inr ps),
      put_product = (\<lambda>h u d. if u = product_url i then Inl msg else Inr ())\<rparr>"


section \<open>Facts about the string operations\<close>

lemma js_Nil [simp]: "js [] = []"
  by (simp add: js_def)

lemma js_append: "js (a @ b) = js a @ js b"
  by (simp add: js_def)

lemma length_js [simp]: "length (js s) = length s"
  by (simp add: js_def)


lemma isWhiteSpace_space [simp]: "isWhiteSpace 0x20"
  by (simp add: isWhiteSpace_def)



subsection \<open>The code's operations are the specification's\<close>

lemma split_eq_spec_pieces: "split sep s = spec_pieces sep s"
proof (induction s)
  case Nil
  show ?case by (subst spec_pieces.simps) simp
next
  case (Cons c cs)
  show ?case
  proof (cases "c = sep")
    case True
    then show ?thesis
      using Cons.IH by (subst spec_pieces.simps) simp
  next
    case False
    show ?thesis
    proof (cases "sep \<in> set cs")
      case True
      then have "spec_pieces sep cs =
          takeWhile (\<lambda>c. c \<noteq> sep) cs # spec_pieces sep (tl (dropWhile (\<lambda>c. c \<noteq> sep) cs))"
        by (subst spec_pieces.simps) simp
      with Cons.IH False True show ?thesis
        by (subst spec_pieces.simps) simp
    next
      case no: False
      then have "spec_pieces sep cs = [cs]"
        by (subst spec_pieces.simps) simp
      with Cons.IH False no show ?thesis
        by (subst spec_pieces.simps) simp
    qed
  qed
qed

lemma trim_eq_spec_strip: "trim s = spec_strip s"
proof (induction s)
  case Nil
  show ?case by (simp add: trim_def spec_strip_def)
next
  case (Cons x xs)
  show ?case
  proof (cases "isWhiteSpace x")
    case True
    show ?thesis
    proof (cases "\<forall>y\<in>set xs. isWhiteSpace y")
      case all: True
      then have d: "dropWhile isWhiteSpace xs = []" "dropWhile isWhiteSpace (rev xs) = []"
        by simp_all
      from True all show ?thesis
        by (simp add: trim_def spec_strip_def dropWhile_append d)
    next
      case some: False
      with True Cons.IH show ?thesis
        by (auto simp: trim_def spec_strip_def dropWhile_append)
    qed
  next
    case False
    show ?thesis
    proof (cases "\<forall>y\<in>set xs. isWhiteSpace y")
      case all: True
      then have d: "dropWhile isWhiteSpace (rev xs) = []"
        by simp
      from False all show ?thesis
        by (simp add: trim_def spec_strip_def dropWhile_append d)
    next
      case some: False
      with False show ?thesis
        by (auto simp: trim_def spec_strip_def dropWhile_append)
    qed
  qed
qed

lemma join_eq_spec_joined: "join sep xs = spec_joined sep xs"
  by (induction sep xs rule: join.induct) (simp_all add: spec_joined_def)

lemma startsWith_iff_prefix: "startsWith t p \<longleftrightarrow> prefix p t"
  by (auto simp: startsWith_def prefix_def) (metis append_eq_conv_conj)

subsection \<open>Collapsing and trimming leave the words, one space apart\<close>



lemma spec_words_subset: "w \<in> set (spec_words t) \<Longrightarrow> set w \<subseteq> set t"
  by (induction t arbitrary: w rule: spec_words.induct)
     (auto split: if_splits dest: set_takeWhileD set_dropWhileD)













subsection \<open>Case mapping\<close>




















section \<open>The activity log\<close>

lemma logActivity_logs:
  assumes "length (automationLogs w) \<le> 100"
  shows "automationLogs (logActivity a d s w) =
     take 100 (entries_from (clock w) (ticks w) [(a, d, s)] @ automationLogs w)"
proof (cases "length (automationLogs w) = 100")
  case True
  then show ?thesis
    by (simp add: logActivity_def Let_def butlast_conv_take)
next
  case False
  with assms have "length (automationLogs w) < 100" by simp
  then show ?thesis
    by (simp add: logActivity_def Let_def)
qed

lemma logActivity_frame [simp]:
  "clock (logActivity a d s w) = clock w"
  "ticks (logActivity a d s w) = Suc (ticks w)"
  "calls (logActivity a d s w) = calls w"
  by (simp_all add: logActivity_def Let_def)

lemma logActivity_length:
  "length (automationLogs w) \<le> 100 \<Longrightarrow> length (automationLogs (logActivity a d s w)) \<le> 100"
  by (simp add: logActivity_logs)

lemma take_append_take: "take n (xs @ take n ys) = take n (xs @ ys)"
  by simp

lemma length_entries_from [simp]: "length (entries_from clk t es) = length es"
  by (induction clk t es rule: entries_from.induct) simp_all

lemma details_entries_from: "map details (entries_from clk t es) = map (\<lambda>(a, d, s). d) es"
  by (induction clk t es rule: entries_from.induct) simp_all

lemma record_all_logs:
  "length (automationLogs w) \<le> 100 \<Longrightarrow>
   automationLogs (record_all es w) =
     take 100 (rev (entries_from (clock w) (ticks w) es) @ automationLogs w)"
proof (induction es arbitrary: w)
  case Nil
  then show ?case by (simp add: record_all_def)
next
  case (Cons e es)
  obtain a d s where e: "e = (a, d, s)" by (cases e)
  have step: "record_all (e # es) w = record_all es (logActivity a d s w)"
    by (simp add: record_all_def e)
  have "length (automationLogs (logActivity a d s w)) \<le> 100"
    using Cons.prems by (rule logActivity_length)
  from Cons.IH [OF this]
  have "automationLogs (record_all es (logActivity a d s w)) =
      take 100 (rev (entries_from (clock w) (Suc (ticks w)) es)
        @ take 100 (entries_from (clock w) (ticks w) [(a, d, s)] @ automationLogs w))"
    using Cons.prems by (simp add: logActivity_logs)
  then show ?case
    unfolding step take_append_take by (simp add: e)
qed

lemma many_events_distinct: "distinct (entries_from clk t many_events)"
proof -
  have "inj_on (\<lambda>n. replicate n (0x2E :: code_unit)) {0..<101}"
  proof (rule inj_onI)
    fix n m :: nat
    assume "replicate n (0x2E :: code_unit) = replicate m 0x2E"
    then have "length (replicate n (0x2E :: code_unit)) = length (replicate m (0x2E :: code_unit))"
      by simp
    then show "n = m" by simp
  qed
  then have "distinct (map details (entries_from clk t many_events))"
    by (simp add: details_entries_from many_events_def distinct_map comp_def)
  then show ?thesis
    by (simp add: distinct_map)
qed

lemma forOf_cap:
  assumes "\<And>x l w. length (automationLogs w) \<le> 100 \<Longrightarrow>
             length (automationLogs (snd (body x l w))) \<le> 100"
    and "length (automationLogs w) \<le> 100"
  shows "length (automationLogs (snd (forOf body xs l w))) \<le> 100"
  using assms(2)
proof (induction xs arbitrary: l w)
  case Nil
  then show ?case by simp
next
  case (Cons x xs)
  obtain r w1 where b: "body x l w = (r, w1)"
    by (cases "body x l w")
  have c: "length (automationLogs w1) \<le> 100"
    using assms(1) [OF Cons.prems, of x l] b by simp
  show ?case
  proof (cases r)
    case (Inl e)
    with b c show ?thesis by simp
  next
    case (Inr l')
    with b Cons.IH [OF c, of l'] show ?thesis by simp
  qed
qed

lemma optimizeTitles_body_cap:
  "length (automationLogs w) \<le> 100 \<Longrightarrow>
   length (automationLogs (snd (optimizeTitles_body api p n w))) \<le> 100"
  by (simp add: optimizeTitles_body_def shopifyAPI_put_def Let_def logActivity_length
      split: sum.splits)

lemma updateInventoryTags_body_cap:
  "length (automationLogs w) \<le> 100 \<Longrightarrow>
   length (automationLogs (snd (updateInventoryTags_body api p n w))) \<le> 100"
  by (simp add: updateInventoryTags_body_def shopifyAPI_put_def logActivity_length
      split: sum.splits)

lemma generateSEODescriptions_body_cap:
  "length (automationLogs w) \<le> 100 \<Longrightarrow>
   length (automationLogs (snd (generateSEODescriptions_body api p n w))) \<le> 100"
  by (simp add: generateSEODescriptions_body_def shopifyAPI_put_def logActivity_length
      split: sum.splits)

lemma bulk_edit_body_cap:
  "length (automationLogs w) \<le> 100 \<Longrightarrow>
   length (automationLogs (snd (bulk_edit_body api upd i rs w))) \<le> 100"
  by (simp add: bulk_edit_body_def shopifyAPI_put_def logActivity_length split: sum.splits)

lemma routines_cap:
  assumes "length (automationLogs w) \<le> 100"
  shows "length (automationLogs (optimizeTitles api cfg w)) \<le> 100"
    and "length (automationLogs (updateInventoryTags api cfg w)) \<le> 100"
    and "length (automationLogs (generateSEODescriptions api cfg w)) \<le> 100"
    and "length (automationLogs (snd (get_api_products api cfg w))) \<le> 100"
    and "length (automationLogs (snd (post_api_bulk_edit api req w))) \<le> 100"
proof -
  let ?w1 = "w\<lparr>calls := calls w @ [Get (js ''/products.json?limit=250'')]\<rparr>"
  have w1: "length (automationLogs ?w1) \<le> 100"
    using assms by simp
  have t: "length (automationLogs (snd (forOf (optimizeTitles_body api) ps 0 ?w1))) \<le> 100" for ps
    using optimizeTitles_body_cap w1 by (rule forOf_cap)
  have u: "length (automationLogs (snd (forOf (updateInventoryTags_body api) ps 0 ?w1))) \<le> 100" for ps
    using updateInventoryTags_body_cap w1 by (rule forOf_cap)
  have g: "length (automationLogs (snd (forOf (generateSEODescriptions_body api) ps 0 ?w1))) \<le> 100" for ps
    using generateSEODescriptions_body_cap w1 by (rule forOf_cap)
  have b: "length (automationLogs (snd (forOf (bulk_edit_body api upd) ids [] w))) \<le> 100" for upd ids
    using bulk_edit_body_cap assms by (rule forOf_cap)
  show "length (automationLogs (optimizeTitles api cfg w)) \<le> 100"
    using assms w1 t
    by (auto simp: optimizeTitles_def shopifyAPI_get_def logActivity_length
        split: sum.splits prod.splits) (metis logActivity_length snd_conv)+
  show "length (automationLogs (updateInventoryTags api cfg w)) \<le> 100"
    using assms w1 u
    by (auto simp: updateInventoryTags_def shopifyAPI_get_def logActivity_length
        split: sum.splits prod.splits) (metis logActivity_length snd_conv)+
  show "length (automationLogs (generateSEODescriptions api cfg w)) \<le> 100"
    using assms w1 g
    by (auto simp: generateSEODescriptions_def shopifyAPI_get_def logActivity_length
        split: sum.splits prod.splits) (metis logActivity_length snd_conv)+
  show "length (automationLogs (snd (get_api_products api cfg w))) \<le> 100"
    using assms w1
    by (auto simp: get_api_products_def shopifyAPI_get_def logActivity_length split: sum.splits)
  show "length (automationLogs (snd (post_api_bulk_edit api req w))) \<le> 100"
  proof -
    let ?ids = "case productIds req of None \<Rightarrow> [] | Some ids \<Rightarrow> ids"
    obtain r w' where f: "forOf (bulk_edit_body api (updates req)) ?ids [] w = (r, w')"
      by (cases "forOf (bulk_edit_body api (updates req)) ?ids [] w")
    have "length (automationLogs w') \<le> 100"
      using b [of "updates req" ?ids] f by simp
    then show ?thesis
      by (simp add: post_api_bulk_edit_def f split: sum.splits)
  qed
qed

text \<open>
  Claim C5. Starting from a log of at most 100 entries (the process starts with an empty
  one), every \<open>logActivity\<close> call and every sequence of such calls leaves at most 100
  entries. The log is the newest 100 entries, newest first: after the calls \<open>es\<close> it is
  the first 100 of the new entries in reverse order followed by the old log. After 101
  calls on an empty log it holds the entries of the last 100 calls in reverse order, and
  the entry of the first call is no longer in it (the entries being pairwise different).
  The three routines and the two handlers that log, which change the log through
  \<open>logActivity\<close> only, keep the bound as well.
\<close>

theorem activity_log_capped_newest_first:
  assumes "length (automationLogs w) \<le> 100"
  shows "length (automationLogs (logActivity a d s w)) \<le> 100
       \<and> automationLogs (logActivity a d s w) =
           take 100 (entries_from (clock w) (ticks w) [(a, d, s)] @ automationLogs w)
       \<and> automationLogs (record_all es w) =
           take 100 (rev (entries_from (clock w) (ticks w) es) @ automationLogs w)
       \<and> length (automationLogs (record_all es w)) \<le> 100
       \<and> (automationLogs w = [] \<and> length es = 101 \<longrightarrow>
            automationLogs (record_all es w) = rev (tl (entries_from (clock w) (ticks w) es)))
       \<and> (automationLogs w = [] \<and> length es = 101
              \<and> distinct (entries_from (clock w) (ticks w) es) \<longrightarrow>
            hd (entries_from (clock w) (ticks w) es) \<notin> set (automationLogs (record_all es w)))
       \<and> length (automationLogs (optimizeTitles api cfg w)) \<le> 100
       \<and> length (automationLogs (updateInventoryTags api cfg w)) \<le> 100
       \<and> length (automationLogs (generateSEODescriptions api cfg w)) \<le> 100
       \<and> length (automationLogs (snd (get_api_products api cfg w))) \<le> 100
       \<and> length (automationLogs (snd (post_api_bulk_edit api req w))) \<le> 100"
proof -
  let ?new = "entries_from (clock w) (ticks w) es"
  have logs: "automationLogs (record_all es w) = take 100 (rev ?new @ automationLogs w)"
    using record_all_logs [OF assms] by simp
  have full: "automationLogs (record_all es w) = rev (tl ?new)"
    if "automationLogs w = []" "length es = 101"
  proof -
    have "length ?new = 101"
      using that(2) by simp
    then obtain x xs where new: "?new = x # xs" "length xs = 100"
      by (cases ?new) auto
    show ?thesis
      unfolding logs that(1) new(1) by (simp add: new(2))
  qed
  have absent: "hd ?new \<notin> set (automationLogs (record_all es w))"
    if "automationLogs w = []" "length es = 101" "distinct ?new"
  proof -
    have "length ?new = 101"
      using that(2) by simp
    then obtain x xs where new: "?new = x # xs"
      by (cases ?new) auto
    show ?thesis
      using that(3) unfolding full [OF that(1,2)] new by simp
  qed
  show ?thesis
    using logActivity_length [OF assms] logActivity_logs [OF assms] logs full absent
      routines_cap [OF assms]
    by simp
qed

theorem activity_log_witness:
  "length (automationLogs started) \<le> 100
   \<and> length many_events = 101
   \<and> length (automationLogs (record_all many_events started)) = 100
   \<and> automationLogs (record_all many_events started) =
       rev (tl (entries_from (\<lambda>n. n) 0 many_events))
   \<and> hd (entries_from (\<lambda>n. n) 0 many_events)
       \<notin> set (automationLogs (record_all many_events started))"
proof -
  have h: "length (automationLogs started) \<le> 100"
    by (simp add: started_def)
  have e: "automationLogs started = []"
    by (simp add: started_def)
  have c: "clock started = (\<lambda>n. n)" "ticks started = 0"
    by (simp_all add: started_def)
  have l: "length many_events = 101"
    by (simp add: many_events_def)
  note t = activity_log_capped_newest_first
    [OF h, where es = many_events and a = "[]" and d = "[]" and s = "[]", unfolded c]
  have full: "automationLogs (record_all many_events started) =
      rev (tl (entries_from (\<lambda>n. n) 0 many_events))"
    using t e l by blast
  have absent: "hd (entries_from (\<lambda>n. n) 0 many_events)
      \<notin> set (automationLogs (record_all many_events started))"
    using t e l many_events_distinct [of "\<lambda>n. n" 0] by blast
  have "length (automationLogs (record_all many_events started)) = 100"
    unfolding full using l by simp
  with h l full absent show ?thesis
    by blast
qed


section \<open>Title optimisation\<close>

lemma titleCaseWord_Nil [simp]: "titleCaseWord [] = []"
  by (simp add: titleCaseWord_def charAt_def slice_def toUpperCase_def toLowerCase_def)






















section \<open>Inventory tags\<close>

lemma foldl_plus_sum_list: "foldl (\<lambda>sum v. sum + f v) a vs = a + (\<Sum>v\<leftarrow>vs. f v)" for a :: int
  by (induction vs arbitrary: a) simp_all

lemma totalInventory_eq_spec_total: "totalInventory p = spec_total p"
  by (simp add: totalInventory_def spec_total_def foldl_plus_sum_list)

lemma inventory_body_calls:
  "calls (snd (updateInventoryTags_body api p n w)) =
     calls w @ (if tags p \<noteq> updatedTags p
                then [Put (product_url (product_id p)) (ProductTags (updatedTags p))]
                else [])"
  by (simp add: updateInventoryTags_body_def shopifyAPI_put_def logActivity_def
      Let_def split: sum.splits)

text \<open>
  Claim C1. For every product whose quantities the code adds exactly (\<open>exact_sums\<close>),
  the new tags string is the specification's: the tags field split on commas, each
  piece stripped of white space, the pieces starting with \<open>stock-\<close> removed, exactly one
  tag appended (\<open>stock-out\<close> when the quantities of the variants, a missing one counting
  0, sum to 0, \<open>stock-low\<close> for a sum from 1 to 9, \<open>stock-available\<close> for a sum of 10 or
  more), joined with a comma and a space. The appended tag is given for every sum: a
  negative sum (an oversold product), of which the specification does not speak, gets
  \<open>stock-low\<close>, the code testing the sum for being below 10. Processing a product sends
  one update of its tags when this string differs from the tags field, and nothing
  (leaving the state as it was) when it does not.
\<close>

theorem inventory_tags_computed:
  assumes "exact_sums 0 (variants p)"
  shows "spec_total p = totalInventory p
   \<and> updatedTags p =
       spec_joined (js '', '')
         (spec_surviving_tags p @
          [if totalInventory p = 0 then js ''stock-out''
           else if totalInventory p < 10 then js ''stock-low''
           else js ''stock-available''])
   \<and> (totalInventory p = 0 \<longrightarrow>
        updatedTags p = spec_joined (js '', '') (spec_surviving_tags p @ [js ''stock-out'']))
   \<and> (1 \<le> totalInventory p \<and> totalInventory p \<le> 9 \<longrightarrow>
        updatedTags p = spec_joined (js '', '') (spec_surviving_tags p @ [js ''stock-low'']))
   \<and> (10 \<le> totalInventory p \<longrightarrow>
        updatedTags p = spec_joined (js '', '') (spec_surviving_tags p @ [js ''stock-available'']))
   \<and> (totalInventory p < 0 \<longrightarrow>
        updatedTags p = spec_joined (js '', '') (spec_surviving_tags p @ [js ''stock-low'']))
   \<and> calls (snd (updateInventoryTags_body api p n w)) =
        calls w @ (if tags p \<noteq> updatedTags p
                   then [Put (product_url (product_id p)) (ProductTags (updatedTags p))]
                   else [])
   \<and> (tags p = updatedTags p \<longrightarrow> updateInventoryTags_body api p n w = (Inr n, w))"
proof -
  have surv: "filter (\<lambda>t. \<not> startsWith t (js ''stock-'')) (map trim (split 0x2C (tags p)))
      = spec_surviving_tags p"
    by (simp add: spec_surviving_tags_def startsWith_iff_prefix split_eq_spec_pieces
        trim_eq_spec_strip [abs_def])
  have 1: "spec_total p = totalInventory p"
    by (simp add: totalInventory_eq_spec_total)
  have 0: "updatedTags p =
       spec_joined (js '', '')
         (spec_surviving_tags p @
          [if totalInventory p = 0 then js ''stock-out''
           else if totalInventory p < 10 then js ''stock-low''
           else js ''stock-available''])"
    by (simp add: updatedTags_def Let_def surv join_eq_spec_joined)
  have 2: "totalInventory p = 0 \<longrightarrow>
        updatedTags p = spec_joined (js '', '') (spec_surviving_tags p @ [js ''stock-out''])"
    by (simp add: updatedTags_def Let_def surv join_eq_spec_joined)
  have 3: "1 \<le> totalInventory p \<and> totalInventory p \<le> 9 \<longrightarrow>
        updatedTags p = spec_joined (js '', '') (spec_surviving_tags p @ [js ''stock-low''])"
    by (simp add: updatedTags_def Let_def surv join_eq_spec_joined)
  have 4: "10 \<le> totalInventory p \<longrightarrow>
        updatedTags p = spec_joined (js '', '') (spec_surviving_tags p @ [js ''stock-available''])"
    by (simp add: updatedTags_def Let_def surv join_eq_spec_joined)
  have 6: "totalInventory p < 0 \<longrightarrow>
        updatedTags p = spec_joined (js '', '') (spec_surviving_tags p @ [js ''stock-low''])"
    by (simp add: updatedTags_def Let_def surv join_eq_spec_joined)
  have 5: "tags p = updatedTags p \<longrightarrow> updateInventoryTags_body api p n w = (Inr n, w)"
    by (simp add: updateInventoryTags_body_def)
  show ?thesis
    by (intro conjI 0 1 2 3 4 5 6 inventory_body_calls)
qed

theorem inventory_tags_witness:
  "exact_sums 0 (variants acme_product)
   \<and> totalInventory acme_product = 0
   \<and> updatedTags acme_product = js '', stock-out''
   \<and> exact_sums 0 (variants low_stock_product)
   \<and> totalInventory low_stock_product = 9
   \<and> updatedTags low_stock_product = js ''sale, new, stock-low''
   \<and> exact_sums 0 (variants well_stocked_product)
   \<and> totalInventory well_stocked_product = 10
   \<and> updatedTags well_stocked_product = js ''stock-available''
   \<and> exact_sums 0 (variants oversold_product)
   \<and> totalInventory oversold_product = - 3
   \<and> updatedTags oversold_product = js ''clearance, stock-low''
   \<and> calls (snd (updateInventoryTags_body always_ok low_stock_product 0 started)) =
       [Put (product_url (js ''42'')) (ProductTags (js ''sale, new, stock-low''))]
   \<and> updateInventoryTags_body always_ok well_stocked_product 0 started = (Inr 0, started)"
proof -
  have xa: "exact_sums 0 (variants acme_product)"
    by (simp add: acme_product_def)
  have xl: "exact_sums 0 (variants low_stock_product)"
    by (simp add: low_stock_product_def)
  have xw: "exact_sums 0 (variants well_stocked_product)"
    by (simp add: well_stocked_product_def)
  have xo: "exact_sums 0 (variants oversold_product)"
    by (simp add: oversold_product_def)
  note ta = inventory_tags_computed [OF xa, of always_ok 0 started]
  note tl = inventory_tags_computed [OF xl, of always_ok 0 started]
  note tw = inventory_tags_computed [OF xw, of always_ok 0 started]
  note to = inventory_tags_computed [OF xo, of always_ok 0 started]
  have z: "totalInventory acme_product = 0"
    by (simp add: acme_product_def totalInventory_def)
  have n: "totalInventory low_stock_product = 9"
    by (simp add: low_stock_product_def totalInventory_def)
  have m: "totalInventory well_stocked_product = 10"
    by (simp add: well_stocked_product_def totalInventory_def)
  have o: "totalInventory oversold_product = - 3"
    by (simp add: oversold_product_def totalInventory_def)
  have sa: "spec_joined (js '', '') (spec_surviving_tags acme_product @ [js ''stock-out'']) = js '', stock-out''"
    by code_simp
  have sl: "spec_joined (js '', '') (spec_surviving_tags low_stock_product @ [js ''stock-low''])
      = js ''sale, new, stock-low''"
    by code_simp
  have sw: "spec_joined (js '', '') (spec_surviving_tags well_stocked_product @ [js ''stock-available''])
      = js ''stock-available''"
    by code_simp
  have so: "spec_joined (js '', '') (spec_surviving_tags oversold_product @ [js ''stock-low''])
      = js ''clearance, stock-low''"
    by code_simp
  have "updatedTags acme_product =
      spec_joined (js '', '') (spec_surviving_tags acme_product @ [js ''stock-out''])"
    using ta z by blast
  then have ua: "updatedTags acme_product = js '', stock-out''"
    by (simp only: sa)
  have "updatedTags low_stock_product =
      spec_joined (js '', '') (spec_surviving_tags low_stock_product @ [js ''stock-low''])"
    using tl n by simp
  then have ul: "updatedTags low_stock_product = js ''sale, new, stock-low''"
    by (simp only: sl)
  have "updatedTags well_stocked_product =
      spec_joined (js '', '') (spec_surviving_tags well_stocked_product @ [js ''stock-available''])"
    using tw m by simp
  then have uw: "updatedTags well_stocked_product = js ''stock-available''"
    by (simp only: sw)
  have "updatedTags oversold_product =
      spec_joined (js '', '') (spec_surviving_tags oversold_product @ [js ''stock-low''])"
    using to o by simp
  then have uo: "updatedTags oversold_product = js ''clearance, stock-low''"
    by (simp only: so)
  have c: "calls (snd (updateInventoryTags_body always_ok low_stock_product 0 started)) =
       calls started @ (if tags low_stock_product \<noteq> updatedTags low_stock_product
          then [Put (product_url (product_id low_stock_product)) (ProductTags (updatedTags low_stock_product))]
          else [])"
    using tl by blast
  have "calls (snd (updateInventoryTags_body always_ok low_stock_product 0 started)) =
       [Put (product_url (js ''42'')) (ProductTags (js ''sale, new, stock-low''))]"
    unfolding c ul by (simp add: low_stock_product_def started_def js_def)
  moreover have "tags well_stocked_product = updatedTags well_stocked_product"
    unfolding uw by (simp add: well_stocked_product_def)
  then have "updateInventoryTags_body always_ok well_stocked_product 0 started = (Inr 0, started)"
    using tw by blast
  ultimately show ?thesis
    using xa xl xw xo z n m o ua ul uw uo by blast
qed

text \<open>
  Claim C10. When the tags field is the empty string, splitting it gives one empty piece,
  which does not start with \<open>stock-\<close> and survives. The new tags string is then a comma
  and a space followed by the stock tag (\<open>, stock-out\<close> for a total of 0); it differs from
  the empty tags field, so processing such a product always sends an update of its tags.
\<close>

theorem empty_tags_keep_an_empty_piece:
  assumes "tags p = []"
  shows "split 0x2C (tags p) = [[]]
       \<and> filter (\<lambda>t. \<not> startsWith t (js ''stock-'')) (map trim (split 0x2C (tags p))) = [[]]
       \<and> updatedTags p =
           js '', '' @ (if totalInventory p = 0 then js ''stock-out''
                        else if totalInventory p < 10 then js ''stock-low''
                        else js ''stock-available'')
       \<and> (totalInventory p = 0 \<longrightarrow> updatedTags p = js '', stock-out'')
       \<and> tags p \<noteq> updatedTags p
       \<and> calls (snd (updateInventoryTags_body api p n w)) =
           calls w @ [Put (product_url (product_id p)) (ProductTags (updatedTags p))]"
proof -
  have s: "split 0x2C (tags p) = [[]]"
    by (simp add: assms)
  have f: "filter (\<lambda>t. \<not> startsWith t (js ''stock-'')) (map trim (split 0x2C (tags p))) = [[]]"
    unfolding s by (simp add: trim_def startsWith_def js_def)
  have u: "updatedTags p =
      js '', '' @ (if totalInventory p = 0 then js ''stock-out''
                   else if totalInventory p < 10 then js ''stock-low''
                   else js ''stock-available'')"
    unfolding updatedTags_def Let_def f by simp
  have z: "totalInventory p = 0 \<longrightarrow> updatedTags p = js '', stock-out''"
    unfolding u by (simp add: js_def)
  have d: "tags p \<noteq> updatedTags p"
    unfolding u assms by (simp add: js_def)
  have c: "calls (snd (updateInventoryTags_body api p n w)) =
      calls w @ [Put (product_url (product_id p)) (ProductTags (updatedTags p))]"
    using d by (simp add: inventory_body_calls)
  show ?thesis
    by (intro conjI s f u z d c)
qed

theorem empty_tags_witness:
  "tags acme_product = []
   \<and> totalInventory acme_product = 0
   \<and> updatedTags acme_product = js '', stock-out''
   \<and> calls (snd (updateInventoryTags_body always_ok acme_product 0 started)) =
       [Put (product_url (js ''7'')) (ProductTags (js '', stock-out''))]"
proof -
  have t: "tags acme_product = []"
    by (simp add: acme_product_def)
  have z: "totalInventory acme_product = 0"
    by (simp add: acme_product_def totalInventory_def)
  have i: "product_id acme_product = js ''7''"
    by (simp add: acme_product_def)
  note e = empty_tags_keep_an_empty_piece [OF t, of always_ok 0 started]
  have u: "updatedTags acme_product = js '', stock-out''"
    using e z by blast
  have "calls (snd (updateInventoryTags_body always_ok acme_product 0 started)) =
      calls started @ [Put (product_url (product_id acme_product)) (ProductTags (updatedTags acme_product))]"
    using e by blast
  then show ?thesis
    using t z u by (simp add: i started_def)
qed


section \<open>SEO descriptions\<close>

text \<open>
  Claim C2 as stated fails: the code separates the clauses by spaces of its own, so a
  clause that is left out leaves its space behind. With no product type and vendor Acme
  there are two spaces between \<open>TechHive.\<close> and \<open>Brand:\<close>.
\<close>

theorem seo_description_counterexample:
  "qualifies acme_product
   \<and> seoDescription acme_product \<noteq> js ''Shop X at TechHive. Brand: Acme. Fast shipping and great prices!''
   \<and> seoDescription acme_product = js ''Shop X at TechHive.  Brand: Acme. Fast shipping and great prices!''
   \<and> seoDescription acme_product \<noteq> spec_seoDescription acme_product"
  by (simp add: qualifies_def seoDescription_def spec_seoDescription_def acme_product_def js_def truthy_def)

text \<open>
  Claim C2, as amended. The description is \<open>Shop {title} at TechHive. \<close>, then
  \<open>Category: {product_type}. \<close> when the product type is non-empty and a single space
  otherwise, then \<open>Brand: {vendor}. \<close> when the vendor is non-empty and a single space
  otherwise, then \<open>Fast shipping and great prices!\<close>. It is the specification's template
  exactly when product type and vendor are both non-empty.
\<close>

theorem seo_description_template:
  "seoDescription p =
     js ''Shop '' @ title p @ js '' at TechHive. ''
       @ clause_or_space (js ''Category: '') (product_type p)
       @ clause_or_space (js ''Brand: '') (vendor p)
       @ js ''Fast shipping and great prices!''
   \<and> (seoDescription p = spec_seoDescription p \<longleftrightarrow> truthy (product_type p) \<and> truthy (vendor p))"
proof
  show first: "seoDescription p =
     js ''Shop '' @ title p @ js '' at TechHive. ''
       @ clause_or_space (js ''Category: '') (product_type p)
       @ clause_or_space (js ''Brand: '') (vendor p)
       @ js ''Fast shipping and great prices!''"
    by (simp add: seoDescription_def clause_or_space_def truthy_def js_def split: option.splits)
  have len: "length (seoDescription p) = length (spec_seoDescription p)
       + (if truthy (product_type p) then 0 else 1) + (if truthy (vendor p) then 0 else 1)"
    by (simp add: first) (simp add: spec_seoDescription_def clause_or_space_def)
  show "seoDescription p = spec_seoDescription p \<longleftrightarrow> truthy (product_type p) \<and> truthy (vendor p)"
  proof
    assume "seoDescription p = spec_seoDescription p"
    with len show "truthy (product_type p) \<and> truthy (vendor p)"
      by (auto split: if_splits)
  next
    assume "truthy (product_type p) \<and> truthy (vendor p)"
    then show "seoDescription p = spec_seoDescription p"
      by (simp add: first) (simp add: spec_seoDescription_def clause_or_space_def)
  qed
qed

theorem seo_description_template_witness:
  "seoDescription acme_product = js ''Shop X at TechHive.  Brand: Acme. Fast shipping and great prices!''
   \<and> seoDescription acme_product \<noteq> spec_seoDescription acme_product"
  using seo_description_template [of acme_product]
  by (simp add: acme_product_def clause_or_space_def spec_seoDescription_def truthy_def js_def)

lemma seo_body_calls:
  "calls (snd (generateSEODescriptions_body api p n w)) =
     calls w @ (if qualifies p
                then [Put (product_url (product_id p)) (ProductBodyHtml (seoDescription p))]
                else [])"
  by (simp add: generateSEODescriptions_body_def shopifyAPI_put_def logActivity_def
      Let_def split: sum.splits)

lemma seo_body_count:
  "generateSEODescriptions_body api p n w = (Inr n', w') \<Longrightarrow>
   n' = n + (if qualifies p then 1 else 0)"
  by (auto simp: generateSEODescriptions_body_def shopifyAPI_put_def split: if_splits sum.splits)

lemma seo_requests_Cons:
  "seo_requests (p # ps) =
     (if qualifies p
      then [Put (product_url (product_id p)) (ProductBodyHtml (seoDescription p))]
      else []) @ seo_requests ps"
  by (simp add: seo_requests_def)

lemma seo_loop_calls:
  "\<exists>k\<le>length ps.
     calls (snd (forOf (generateSEODescriptions_body api) ps n w)) = calls w @ seo_requests (take k ps)
     \<and> (\<forall>n'. fst (forOf (generateSEODescriptions_body api) ps n w) = Inr n' \<longrightarrow>
          k = length ps \<and> n' = n + length (seo_requests ps))"
proof (induction ps arbitrary: n w)
  case Nil
  then show ?case by (simp add: seo_requests_def)
next
  case (Cons p ps)
  let ?req = "Put (product_url (product_id p)) (ProductBodyHtml (seoDescription p))"
  obtain r w1 where b: "generateSEODescriptions_body api p n w = (r, w1)"
    by (cases "generateSEODescriptions_body api p n w")
  show ?case
  proof (cases "qualifies p")
    case False
    then have b': "generateSEODescriptions_body api p n w = (Inr n, w)"
      by (simp add: generateSEODescriptions_body_def)
    from Cons.IH [of n w] obtain k where k: "k \<le> length ps"
      "calls (snd (forOf (generateSEODescriptions_body api) ps n w)) = calls w @ seo_requests (take k ps)"
      "\<forall>n'. fst (forOf (generateSEODescriptions_body api) ps n w) = Inr n' \<longrightarrow>
         k = length ps \<and> n' = n + length (seo_requests ps)"
      by blast
    show ?thesis
      using b' False k by (intro exI [of _ "Suc k"]) (simp add: seo_requests_Cons)
  next
    case True
    have c1: "calls w1 = calls w @ [?req]"
      using seo_body_calls [of api p n w] b True by simp
    show ?thesis
    proof (cases r)
      case (Inl e)
      then show ?thesis
        using b c1 True by (intro exI [of _ 1]) (simp add: seo_requests_def)
    next
      case (Inr n1)
      have n1: "n1 = Suc n"
        using seo_body_count [of api p n w n1 w1] b Inr True by simp
      from Cons.IH [of "Suc n" w1] obtain k where k: "k \<le> length ps"
        "calls (snd (forOf (generateSEODescriptions_body api) ps (Suc n) w1)) = calls w1 @ seo_requests (take k ps)"
        "\<forall>n'. fst (forOf (generateSEODescriptions_body api) ps (Suc n) w1) = Inr n' \<longrightarrow>
           k = length ps \<and> n' = Suc n + length (seo_requests ps)"
        by blast
      show ?thesis
        using b Inr c1 k n1 True
        by (intro exI [of _ "Suc k"]) (simp add: seo_requests_Cons)
    qed
  qed
qed

lemma seo_routine_calls:
  assumes "configured cfg"
    and "get_products api (calls w) (js ''/products.json?limit=250'') = Inr ps"
  shows "\<exists>k\<le>length ps.
     calls (generateSEODescriptions api cfg w) =
       calls w @ Get (js ''/products.json?limit=250'') # seo_requests (take k ps)"
proof -
  let ?w1 = "w\<lparr>calls := calls w @ [Get (js ''/products.json?limit=250'')]\<rparr>"
  obtain r w2 where f: "forOf (generateSEODescriptions_body api) ps 0 ?w1 = (r, w2)"
    by (cases "forOf (generateSEODescriptions_body api) ps 0 ?w1")
  from seo_loop_calls [of ps api 0 ?w1] obtain k where k: "k \<le> length ps"
    "calls (snd (forOf (generateSEODescriptions_body api) ps 0 ?w1)) =
       calls ?w1 @ seo_requests (take k ps)"
    by blast
  have c2: "calls w2 = calls w @ Get (js ''/products.json?limit=250'') # seo_requests (take k ps)"
    using k(2) f by simp
  have "calls (generateSEODescriptions api cfg w) = calls w2"
    using assms f
    by (simp add: generateSEODescriptions_def configured_def shopifyAPI_get_def split: sum.splits)
  with c2 k(1) show ?thesis
    by auto
qed

text \<open>
  Claim C9. A product qualifies when its description is absent or shorter than 50
  characters. Processing a product sends one update of its description when it qualifies,
  whatever the description was, and does nothing (leaving the state as it was) when it
  does not. Over a list of products, the requests sent are the updates of the qualifying
  products among the first \<open>k\<close>, in order, for some \<open>k\<close>; when the loop runs to its end
  they are the updates of all the qualifying products, and the count is their number.
  So it is for the routine, after the request that lists the products. No update is
  ever sent for a product with a description of 50 characters or more.
\<close>

theorem seo_write_back_iff_qualifies:
  "(qualifies p \<longleftrightarrow> body_html p = None \<or> length (the (body_html p)) < 50)
   \<and> calls (snd (generateSEODescriptions_body api p n w)) =
       calls w @ (if qualifies p
                  then [Put (product_url (product_id p)) (ProductBodyHtml (seoDescription p))]
                  else [])
   \<and> (\<not> qualifies p \<longrightarrow> generateSEODescriptions_body api p n w = (Inr n, w))
   \<and> (\<exists>k\<le>length ps.
         calls (snd (forOf (generateSEODescriptions_body api) ps n w)) =
           calls w @ seo_requests (take k ps))
   \<and> (\<forall>n'. fst (forOf (generateSEODescriptions_body api) ps n w) = Inr n' \<longrightarrow>
         calls (snd (forOf (generateSEODescriptions_body api) ps n w)) = calls w @ seo_requests ps
         \<and> n' = n + length (seo_requests ps))
   \<and> (configured cfg
        \<and> get_products api (calls w) (js ''/products.json?limit=250'') = Inr ps \<longrightarrow>
       (\<exists>k\<le>length ps.
          calls (generateSEODescriptions api cfg w) =
            calls w @ Get (js ''/products.json?limit=250'') # seo_requests (take k ps)))"
proof (intro conjI)
  show "qualifies p \<longleftrightarrow> body_html p = None \<or> length (the (body_html p)) < 50"
    by (auto simp: qualifies_def split: option.splits)
  show "calls (snd (generateSEODescriptions_body api p n w)) =
       calls w @ (if qualifies p
                  then [Put (product_url (product_id p)) (ProductBodyHtml (seoDescription p))]
                  else [])"
    by (rule seo_body_calls)
  show "\<not> qualifies p \<longrightarrow> generateSEODescriptions_body api p n w = (Inr n, w)"
    by (simp add: generateSEODescriptions_body_def)
  from seo_loop_calls [of ps api n w] obtain k where k: "k \<le> length ps"
    "calls (snd (forOf (generateSEODescriptions_body api) ps n w)) = calls w @ seo_requests (take k ps)"
    "\<forall>n'. fst (forOf (generateSEODescriptions_body api) ps n w) = Inr n' \<longrightarrow>
       k = length ps \<and> n' = n + length (seo_requests ps)"
    by blast
  show "\<exists>k\<le>length ps.
         calls (snd (forOf (generateSEODescriptions_body api) ps n w)) =
           calls w @ seo_requests (take k ps)"
    using k(1,2) by blast
  show "\<forall>n'. fst (forOf (generateSEODescriptions_body api) ps n w) = Inr n' \<longrightarrow>
         calls (snd (forOf (generateSEODescriptions_body api) ps n w)) = calls w @ seo_requests ps
         \<and> n' = n + length (seo_requests ps)"
    using k by auto
  show "configured cfg
        \<and> get_products api (calls w) (js ''/products.json?limit=250'') = Inr ps \<longrightarrow>
       (\<exists>k\<le>length ps.
          calls (generateSEODescriptions api cfg w) =
            calls w @ Get (js ''/products.json?limit=250'') # seo_requests (take k ps))"
    using seo_routine_calls by blast
qed

theorem seo_write_back_witness:
  "qualifies acme_product
   \<and> \<not> qualifies described_product
   \<and> generateSEODescriptions_body always_ok described_product 0 started = (Inr 0, started)
   \<and> forOf (generateSEODescriptions_body always_ok) [described_product, acme_product] 0 started =
       (Inr 1,
        logActivity (js ''auto_seo'') (js ''Generated description for X'') (js ''success'')
          (started\<lparr>calls := [Put (product_url (js ''7''))
             (ProductBodyHtml (js ''Shop X at TechHive.  Brand: Acme. Fast shipping and great prices!''))]\<rparr>))
   \<and> calls (generateSEODescriptions (listing [described_product, acme_product]) shop started) =
       [Get (js ''/products.json?limit=250''),
        Put (product_url (js ''7''))
          (ProductBodyHtml (js ''Shop X at TechHive.  Brand: Acme. Fast shipping and great prices!''))]"
proof -
  note t = seo_write_back_iff_qualifies
    [of described_product always_ok 0 started "[described_product, acme_product]"]
  have q: "qualifies acme_product"
    by (simp add: qualifies_def acme_product_def)
  have nq: "\<not> qualifies described_product"
    by (simp add: qualifies_def described_product_def)
  have d: "generateSEODescriptions_body always_ok described_product 0 started = (Inr 0, started)"
    using t nq by blast
  have s: "seoDescription acme_product = js ''Shop X at TechHive.  Brand: Acme. Fast shipping and great prices!''"
    by (simp add: seoDescription_def acme_product_def js_def)
  have a: "generateSEODescriptions_body always_ok acme_product 0 started =
      (Inr 1,
       logActivity (js ''auto_seo'') (js ''Generated description for X'') (js ''success'')
         (started\<lparr>calls := [Put (product_url (js ''7''))
            (ProductBodyHtml (js ''Shop X at TechHive.  Brand: Acme. Fast shipping and great prices!''))]\<rparr>))"
    unfolding generateSEODescriptions_body_def shopifyAPI_put_def s
    using q by (simp add: always_ok_def started_def acme_product_def js_def)
  have r: "calls (generateSEODescriptions (listing [described_product, acme_product]) shop started) =
      [Get (js ''/products.json?limit=250''),
       Put (product_url (js ''7''))
         (ProductBodyHtml (js ''Shop X at TechHive.  Brand: Acme. Fast shipping and great prices!''))]"
    by code_simp
  show ?thesis
    using q nq d a r by simp
qed


section \<open>A failure inside a scan\<close>

lemma forOf_append:
  "forOf body (xs @ ys) l w =
     (case forOf body xs l w of
        (Inl e, w') \<Rightarrow> (Inl e, w')
      | (Inr l', w') \<Rightarrow> forOf body ys l' w')"
  by (induction xs arbitrary: l w) (auto split: prod.splits sum.splits)

lemma forOf_fails:
  "forOf body ps l w = (Inr l', w') \<Longrightarrow> body p l' w' = (Inl e, w'') \<Longrightarrow>
   forOf body (ps @ p # qs) l w = (Inl e, w'')"
  by (simp add: forOf_append)

lemma optimizeTitles_body_fails:
  "title p \<noteq> optimizeTitle (title p) \<Longrightarrow>
   put_product api (calls w) (product_url (product_id p)) (ProductTitle (optimizeTitle (title p))) = Inl e \<Longrightarrow>
   optimizeTitles_body api p n w =
     (Inl e, w\<lparr>calls := calls w @ [Put (product_url (product_id p)) (ProductTitle (optimizeTitle (title p)))]\<rparr>)"
  by (simp add: optimizeTitles_body_def shopifyAPI_put_def Let_def)

lemma updateInventoryTags_body_fails:
  "tags p \<noteq> updatedTags p \<Longrightarrow>
   put_product api (calls w) (product_url (product_id p)) (ProductTags (updatedTags p)) = Inl e \<Longrightarrow>
   updateInventoryTags_body api p n w =
     (Inl e, w\<lparr>calls := calls w @ [Put (product_url (product_id p)) (ProductTags (updatedTags p))]\<rparr>)"
  by (simp add: updateInventoryTags_body_def shopifyAPI_put_def Let_def)

lemma generateSEODescriptions_body_fails:
  "qualifies p \<Longrightarrow>
   put_product api (calls w) (product_url (product_id p)) (ProductBodyHtml (seoDescription p)) = Inl e \<Longrightarrow>
   generateSEODescriptions_body api p n w =
     (Inl e, w\<lparr>calls := calls w @ [Put (product_url (product_id p)) (ProductBodyHtml (seoDescription p))]\<rparr>)"
  by (simp add: generateSEODescriptions_body_def shopifyAPI_put_def Let_def)

lemma optimizeTitles_aborts:
  assumes "configured cfg"
    and "get_products api (calls w) (js ''/products.json?limit=250'') = Inr (ps @ p # qs)"
    and "forOf (optimizeTitles_body api) ps 0
           (w\<lparr>calls := calls w @ [Get (js ''/products.json?limit=250'')]\<rparr>) = (Inr n, w2)"
    and "optimizeTitles_body api p n w2 = (Inl e, w3)"
  shows "optimizeTitles api cfg w = logActivity (js ''title_optimization'') e (js ''error'') w3"
  using assms(1,2) forOf_fails [OF assms(3,4), of qs]
  by (simp add: optimizeTitles_def configured_def shopifyAPI_get_def)

lemma updateInventoryTags_aborts:
  assumes "configured cfg"
    and "get_products api (calls w) (js ''/products.json?limit=250'') = Inr (ps @ p # qs)"
    and "forOf (updateInventoryTags_body api) ps 0
           (w\<lparr>calls := calls w @ [Get (js ''/products.json?limit=250'')]\<rparr>) = (Inr n, w2)"
    and "updateInventoryTags_body api p n w2 = (Inl e, w3)"
  shows "updateInventoryTags api cfg w = logActivity (js ''inventory_tagging'') e (js ''error'') w3"
  using assms(1,2) forOf_fails [OF assms(3,4), of qs]
  by (simp add: updateInventoryTags_def configured_def shopifyAPI_get_def)

lemma generateSEODescriptions_aborts:
  assumes "configured cfg"
    and "get_products api (calls w) (js ''/products.json?limit=250'') = Inr (ps @ p # qs)"
    and "forOf (generateSEODescriptions_body api) ps 0
           (w\<lparr>calls := calls w @ [Get (js ''/products.json?limit=250'')]\<rparr>) = (Inr n, w2)"
    and "generateSEODescriptions_body api p n w2 = (Inl e, w3)"
  shows "generateSEODescriptions api cfg w = logActivity (js ''seo_generation'') e (js ''error'') w3"
  using assms(1,2) forOf_fails [OF assms(3,4), of qs]
  by (simp add: generateSEODescriptions_def configured_def shopifyAPI_get_def)

text \<open>
  Claim C4 as stated fails: each routine has one \<open>try\<close> around its whole loop. With two
  products whose titles both need optimising and a catalogue that rejects the update of
  the first, no update is sent for the second, and the log gets a single error entry for
  the run.
\<close>

theorem failure_not_isolated:
  "title (two_titles ! 1) \<noteq> optimizeTitle (title (two_titles ! 1))
   \<and> calls (optimizeTitles (rejecting two_titles (js ''1'') (js ''Request failed with status code 429'')) shop started)
       = [Get (js ''/products.json?limit=250''),
          Put (product_url (js ''1'')) (ProductTitle (js ''Wireless Mouse''))]
   \<and> Put (product_url (js ''2'')) (ProductTitle (optimizeTitle (title (two_titles ! 1))))
       \<notin> set (calls (optimizeTitles (rejecting two_titles (js ''1'') (js ''Request failed with status code 429'')) shop started))
   \<and> automationLogs (optimizeTitles (rejecting two_titles (js ''1'') (js ''Request failed with status code 429'')) shop started)
       = [\<lparr>timestamp = 0, action = js ''title_optimization'',
           details = js ''Request failed with status code 429'', status = js ''error''\<rparr>]"
  by code_simp

text \<open>
  Claim C4, as amended. In each of the three routines, when the products before \<open>p\<close> have
  been processed and the update of \<open>p\<close> throws, the run ends there: its outcome is the
  state reached at that point, with the failed request sent and one error entry logged
  for the routine, carrying the message of the failure. The updates made before stay,
  and the products after \<open>p\<close> are not processed: the outcome does not depend on them.
\<close>

theorem failure_ends_the_scan:
  assumes "configured cfg"
    and "get_products api (calls w) (js ''/products.json?limit=250'') = Inr (ps @ p # qs)"
  shows
    "(\<forall>n w2 e.
        forOf (optimizeTitles_body api) ps 0
          (w\<lparr>calls := calls w @ [Get (js ''/products.json?limit=250'')]\<rparr>) = (Inr n, w2) \<longrightarrow>
        title p \<noteq> optimizeTitle (title p) \<longrightarrow>
        put_product api (calls w2) (product_url (product_id p))
          (ProductTitle (optimizeTitle (title p))) = Inl e \<longrightarrow>
        optimizeTitles api cfg w =
          logActivity (js ''title_optimization'') e (js ''error'')
            (w2\<lparr>calls := calls w2 @
               [Put (product_url (product_id p)) (ProductTitle (optimizeTitle (title p)))]\<rparr>))
     \<and> (\<forall>n w2 e.
        forOf (updateInventoryTags_body api) ps 0
          (w\<lparr>calls := calls w @ [Get (js ''/products.json?limit=250'')]\<rparr>) = (Inr n, w2) \<longrightarrow>
        tags p \<noteq> updatedTags p \<longrightarrow>
        put_product api (calls w2) (product_url (product_id p))
          (ProductTags (updatedTags p)) = Inl e \<longrightarrow>
        updateInventoryTags api cfg w =
          logActivity (js ''inventory_tagging'') e (js ''error'')
            (w2\<lparr>calls := calls w2 @
               [Put (product_url (product_id p)) (ProductTags (updatedTags p))]\<rparr>))
     \<and> (\<forall>n w2 e.
        forOf (generateSEODescriptions_body api) ps 0
          (w\<lparr>calls := calls w @ [Get (js ''/products.json?limit=250'')]\<rparr>) = (Inr n, w2) \<longrightarrow>
        qualifies p \<longrightarrow>
        put_product api (calls w2) (product_url (product_id p))
          (ProductBodyHtml (seoDescription p)) = Inl e \<longrightarrow>
        generateSEODescriptions api cfg w =
          logActivity (js ''seo_generation'') e (js ''error'')
            (w2\<lparr>calls := calls w2 @
               [Put (product_url (product_id p)) (ProductBodyHtml (seoDescription p))]\<rparr>))"
proof (intro conjI allI impI)
  fix n w2 e
  assume "forOf (optimizeTitles_body api) ps 0
      (w\<lparr>calls := calls w @ [Get (js ''/products.json?limit=250'')]\<rparr>) = (Inr n, w2)"
    and "title p \<noteq> optimizeTitle (title p)"
    and "put_product api (calls w2) (product_url (product_id p))
      (ProductTitle (optimizeTitle (title p))) = Inl e"
  then show "optimizeTitles api cfg w =
      logActivity (js ''title_optimization'') e (js ''error'')
        (w2\<lparr>calls := calls w2 @
           [Put (product_url (product_id p)) (ProductTitle (optimizeTitle (title p)))]\<rparr>)"
    using optimizeTitles_aborts [OF assms] optimizeTitles_body_fails by blast
next
  fix n w2 e
  assume "forOf (updateInventoryTags_body api) ps 0
      (w\<lparr>calls := calls w @ [Get (js ''/products.json?limit=250'')]\<rparr>) = (Inr n, w2)"
    and "tags p \<noteq> updatedTags p"
    and "put_product api (calls w2) (product_url (product_id p))
      (ProductTags (updatedTags p)) = Inl e"
  then show "updateInventoryTags api cfg w =
      logActivity (js ''inventory_tagging'') e (js ''error'')
        (w2\<lparr>calls := calls w2 @
           [Put (product_url (product_id p)) (ProductTags (updatedTags p))]\<rparr>)"
    using updateInventoryTags_aborts [OF assms] updateInventoryTags_body_fails by blast
next
  fix n w2 e
  assume "forOf (generateSEODescriptions_body api) ps 0
      (w\<lparr>calls := calls w @ [Get (js ''/products.json?limit=250'')]\<rparr>) = (Inr n, w2)"
    and "qualifies p"
    and "put_product api (calls w2) (product_url (product_id p))
      (ProductBodyHtml (seoDescription p)) = Inl e"
  then show "generateSEODescriptions api cfg w =
      logActivity (js ''seo_generation'') e (js ''error'')
        (w2\<lparr>calls := calls w2 @
           [Put (product_url (product_id p)) (ProductBodyHtml (seoDescription p))]\<rparr>)"
    using generateSEODescriptions_aborts [OF assms] generateSEODescriptions_body_fails by blast
qed

theorem failure_ends_the_scan_witness:
  "configured shop
   \<and> optimizeTitles (rejecting two_titles (js ''1'') (js ''Request failed with status code 429'')) shop started =
       logActivity (js ''title_optimization'') (js ''Request failed with status code 429'') (js ''error'')
         (started\<lparr>calls :=
            [Get (js ''/products.json?limit=250''),
             Put (product_url (js ''1'')) (ProductTitle (js ''Wireless Mouse''))]\<rparr>)
   \<and> updateInventoryTags (rejecting two_titles (js ''1'') (js ''Request failed with status code 429'')) shop started =
       logActivity (js ''inventory_tagging'') (js ''Request failed with status code 429'') (js ''error'')
         (started\<lparr>calls :=
            [Get (js ''/products.json?limit=250''),
             Put (product_url (js ''1'')) (ProductTags (js ''stock-out''))]\<rparr>)
   \<and> generateSEODescriptions (rejecting two_titles (js ''1'') (js ''Request failed with status code 429'')) shop started =
       logActivity (js ''seo_generation'') (js ''Request failed with status code 429'') (js ''error'')
         (started\<lparr>calls :=
            [Get (js ''/products.json?limit=250''),
             Put (product_url (js ''1'')) (ProductBodyHtml (seoDescription (two_titles ! 0)))]\<rparr>)"
proof -
  let ?msg = "js ''Request failed with status code 429''"
  let ?api = "rejecting two_titles (js ''1'') ?msg"
  let ?p = "two_titles ! 0"
  let ?w1 = "started\<lparr>calls := calls started @ [Get (js ''/products.json?limit=250'')]\<rparr>"
  have c: "configured shop"
    by (simp add: configured_def shop_def truthy_def js_def)
  have g: "get_products ?api (calls started) (js ''/products.json?limit=250'') = Inr ([] @ ?p # [two_titles ! 1])"
    by (simp add: rejecting_def two_titles_def)
  note t = failure_ends_the_scan [OF c g]
  have i: "product_id ?p = js ''1''"
    by (simp add: two_titles_def)
  have f: "put_product ?api h (product_url (product_id ?p)) d = Inl ?msg" for h d
    by (simp add: rejecting_def i)
  have w1: "?w1 = started\<lparr>calls := [Get (js ''/products.json?limit=250'')]\<rparr>"
    by (simp add: started_def)
  have o: "optimizeTitle (title ?p) = js ''Wireless Mouse''"
    by code_simp
  have dt: "title ?p \<noteq> optimizeTitle (title ?p)"
    unfolding o by (simp add: two_titles_def js_def)
  have lt: "forOf (optimizeTitles_body ?api) [] 0 ?w1 = (Inr 0, ?w1)"
    by simp
  have "optimizeTitles ?api shop started =
      logActivity (js ''title_optimization'') ?msg (js ''error'')
        (?w1\<lparr>calls := calls ?w1 @
           [Put (product_url (product_id ?p)) (ProductTitle (optimizeTitle (title ?p)))]\<rparr>)"
    using t lt dt f by blast
  then have titles: "optimizeTitles ?api shop started =
      logActivity (js ''title_optimization'') ?msg (js ''error'')
        (started\<lparr>calls :=
           [Get (js ''/products.json?limit=250''),
            Put (product_url (js ''1'')) (ProductTitle (js ''Wireless Mouse''))]\<rparr>)"
    by (simp add: o i started_def)
  have u: "updatedTags ?p = js ''stock-out''"
    by code_simp
  have du: "tags ?p \<noteq> updatedTags ?p"
    unfolding u by (simp add: two_titles_def js_def)
  have lu: "forOf (updateInventoryTags_body ?api) [] 0 ?w1 = (Inr 0, ?w1)"
    by simp
  have "updateInventoryTags ?api shop started =
      logActivity (js ''inventory_tagging'') ?msg (js ''error'')
        (?w1\<lparr>calls := calls ?w1 @
           [Put (product_url (product_id ?p)) (ProductTags (updatedTags ?p))]\<rparr>)"
    using t lu du f by blast
  then have tagging: "updateInventoryTags ?api shop started =
      logActivity (js ''inventory_tagging'') ?msg (js ''error'')
        (started\<lparr>calls :=
           [Get (js ''/products.json?limit=250''),
            Put (product_url (js ''1'')) (ProductTags (js ''stock-out''))]\<rparr>)"
    by (simp add: u i started_def)
  have q: "qualifies ?p"
    by (simp add: qualifies_def two_titles_def)
  have ls: "forOf (generateSEODescriptions_body ?api) [] 0 ?w1 = (Inr 0, ?w1)"
    by simp
  have "generateSEODescriptions ?api shop started =
      logActivity (js ''seo_generation'') ?msg (js ''error'')
        (?w1\<lparr>calls := calls ?w1 @
           [Put (product_url (product_id ?p)) (ProductBodyHtml (seoDescription ?p))]\<rparr>)"
    using t ls q f by blast
  then have seo: "generateSEODescriptions ?api shop started =
      logActivity (js ''seo_generation'') ?msg (js ''error'')
        (started\<lparr>calls :=
           [Get (js ''/products.json?limit=250''),
            Put (product_url (js ''1'')) (ProductBodyHtml (seoDescription ?p))]\<rparr>)"
    by (simp add: i started_def)
  from c titles tagging seo show ?thesis
    by (intro conjI)
qed


section \<open>Bulk edit\<close>

lemma bulk_edit_body_result:
  "bulk_edit_body api upd i rs w =
     (Inr (rs @ [bulk_entry api upd (calls w) i]),
      logActivity (js ''bulk_update'')
        (case put_product api (calls w) (product_url i) (ProductUpdates upd) of
           Inr _ \<Rightarrow> js ''Updated product '' @ i
         | Inl e \<Rightarrow> js ''Failed to update '' @ i @ js '': '' @ e)
        (result_status (bulk_entry api upd (calls w) i))
        (w\<lparr>calls := calls w @ [Put (product_url i) (ProductUpdates upd)]\<rparr>))"
  by (simp add: bulk_edit_body_def bulk_entry_def shopifyAPI_put_def split: sum.splits)

lemma bulk_edit_loop:
  "\<exists>rs' w'. forOf (bulk_edit_body api upd) ids rs w = (Inr (rs @ rs'), w')
     \<and> calls w' = calls w @ bulk_requests upd ids
     \<and> length rs' = length ids
     \<and> (\<forall>k<length ids. rs' ! k = bulk_entry api upd (calls w @ bulk_requests upd (take k ids)) (ids ! k))"
proof (induction ids arbitrary: rs w)
  case Nil
  then show ?case by (simp add: bulk_requests_def)
next
  case (Cons i ids)
  let ?r = "bulk_entry api upd (calls w) i"
  obtain w1 where b: "bulk_edit_body api upd i rs w = (Inr (rs @ [?r]), w1)"
    and c1: "calls w1 = calls w @ [Put (product_url i) (ProductUpdates upd)]"
    by (simp add: bulk_edit_body_result)
  from Cons.IH [of "rs @ [?r]" w1] obtain rs' w' where
    ih: "forOf (bulk_edit_body api upd) ids (rs @ [?r]) w1 = (Inr ((rs @ [?r]) @ rs'), w')"
      "calls w' = calls w1 @ bulk_requests upd ids"
      "length rs' = length ids"
      "\<forall>k<length ids. rs' ! k = bulk_entry api upd (calls w1 @ bulk_requests upd (take k ids)) (ids ! k)"
    by blast
  have nth: "(?r # rs') ! k =
      bulk_entry api upd (calls w @ bulk_requests upd (take k (i # ids))) ((i # ids) ! k)"
    if "k < length (i # ids)" for k
  proof (cases k)
    case 0
    then show ?thesis by (simp add: bulk_requests_def)
  next
    case (Suc j)
    with that ih(4) show ?thesis
      by (simp add: c1 bulk_requests_def)
  qed
  show ?case
  proof (intro exI [of _ "?r # rs'"] exI [of _ w'] conjI allI impI)
    show "forOf (bulk_edit_body api upd) (i # ids) rs w = (Inr (rs @ ?r # rs'), w')"
      using b ih(1) by simp
    show "calls w' = calls w @ bulk_requests upd (i # ids)"
      using ih(2) c1 by (simp add: bulk_requests_def)
    show "length (?r # rs') = length (i # ids)"
      using ih(3) by simp
    show "(?r # rs') ! k = bulk_entry api upd (calls w @ bulk_requests upd (take k (i # ids))) ((i # ids) ! k)"
      if "k < length (i # ids)" for k
      using that by (rule nth)
  qed
qed

lemma bulk_entry_fields:
  "result_id (bulk_entry api upd h i) = i"
  "result_status (bulk_entry api upd h i) = js ''success'' \<or> result_status (bulk_entry api upd h i) = js ''error''"
  "result_status (bulk_entry api upd h i) = js ''error'' \<longleftrightarrow>
     (\<exists>e. put_product api h (product_url i) (ProductUpdates upd) = Inl e)"
  "put_product api h (product_url i) (ProductUpdates upd) = Inl e \<Longrightarrow>
     result_error (bulk_entry api upd h i) = Some e"
  by (auto simp: bulk_entry_def js_def split: sum.splits)

lemma bulk_entry_outcome:
  "put_product api h (product_url i) (ProductUpdates upd) = Inl e \<Longrightarrow>
     result_status (bulk_entry api upd h i) = js ''error''
     \<and> result_error (bulk_entry api upd h i) = Some e"
  "put_product api h (product_url i) (ProductUpdates upd) = Inr () \<Longrightarrow>
     result_status (bulk_entry api upd h i) = js ''success''
     \<and> result_error (bulk_entry api upd h i) = None"
  by (simp_all add: bulk_entry_def)

text \<open>
  Claim C6 as stated fails in one point: a failing entry carries the message of the
  error that was thrown, as it is, and nothing in the handler makes it non-empty. When
  the update of the second of three ids throws an error whose message is the empty
  string, the answer has three results and counts two successes, and the \<open>error\<close>
  field of the second result is the empty string.
\<close>

theorem bulk_edit_empty_message:
  "fst (post_api_bulk_edit (rejecting [] (js ''2'') [])
          \<lparr>productIds = Some [js ''1'', js ''2'', js ''3''], updates = js ''{tags: sale}''\<rparr> started) =
     Some \<lparr>status_code = 200,
           json = BulkEdit
             [\<lparr>result_id = js ''1'', result_status = js ''success'', result_error = None\<rparr>,
              \<lparr>result_id = js ''2'', result_status = js ''error'', result_error = Some []\<rparr>,
              \<lparr>result_id = js ''3'', result_status = js ''success'', result_error = None\<rparr>]
             3 2\<rparr>"
  by code_simp

text \<open>
  Claim C6, as amended. A bulk edit over the ids \<open>ids\<close> sends one update per id, in
  order, whatever the outcome of the earlier ones, and answers with one result per id,
  in the order of the ids. The result of an id is \<open>success\<close>, with no \<open>error\<close> field, when
  its own update succeeded, and \<open>error\<close> with the message of the thrown error, unchanged,
  when it threw; the message is non-empty exactly when the thrown one is. \<open>total\<close> is
  the number of ids and \<open>successful\<close> the number of \<open>success\<close> results.
\<close>

theorem bulk_edit_isolates_failures:
  "\<exists>results w'.
     post_api_bulk_edit api \<lparr>productIds = Some ids, updates = upd\<rparr> w =
       (Some \<lparr>status_code = 200,
              json = BulkEdit results (length ids)
                (length (filter (\<lambda>r. result_status r = js ''success'') results))\<rparr>,
        w')
     \<and> calls w' = calls w @ bulk_requests upd ids
     \<and> map result_id results = ids
     \<and> (\<forall>k<length ids.
           results ! k = bulk_entry api upd (calls w @ bulk_requests upd (take k ids)) (ids ! k))
     \<and> (\<forall>k<length ids. \<forall>e.
           put_product api (calls w @ bulk_requests upd (take k ids))
             (product_url (ids ! k)) (ProductUpdates upd) = Inl e \<longrightarrow>
           result_status (results ! k) = js ''error'' \<and> result_error (results ! k) = Some e)
     \<and> (\<forall>k<length ids.
           put_product api (calls w @ bulk_requests upd (take k ids))
             (product_url (ids ! k)) (ProductUpdates upd) = Inr () \<longrightarrow>
           result_status (results ! k) = js ''success'' \<and> result_error (results ! k) = None)"
proof -
  from bulk_edit_loop [of api upd ids "[]" w] obtain results w' where
    loop: "forOf (bulk_edit_body api upd) ids [] w = (Inr results, w')"
      "calls w' = calls w @ bulk_requests upd ids"
      "length results = length ids"
      "\<forall>k<length ids. results ! k = bulk_entry api upd (calls w @ bulk_requests upd (take k ids)) (ids ! k)"
    by auto
  have ids: "map result_id results = ids"
    using loop(3,4) by (intro nth_equalityI) (simp_all add: bulk_entry_fields(1))
  show ?thesis
  proof (intro exI [of _ results] exI [of _ w'] conjI)
    show "post_api_bulk_edit api \<lparr>productIds = Some ids, updates = upd\<rparr> w =
       (Some \<lparr>status_code = 200,
              json = BulkEdit results (length ids)
                (length (filter (\<lambda>r. result_status r = js ''success'') results))\<rparr>,
        w')"
      by (simp add: post_api_bulk_edit_def loop(1))
    show "calls w' = calls w @ bulk_requests upd ids"
      by (rule loop(2))
    show "map result_id results = ids"
      by (rule ids)
    show "\<forall>k<length ids.
           results ! k = bulk_entry api upd (calls w @ bulk_requests upd (take k ids)) (ids ! k)"
      by (rule loop(4))
    show "\<forall>k<length ids. \<forall>e.
           put_product api (calls w @ bulk_requests upd (take k ids))
             (product_url (ids ! k)) (ProductUpdates upd) = Inl e \<longrightarrow>
           result_status (results ! k) = js ''error'' \<and> result_error (results ! k) = Some e"
      using loop(4) bulk_entry_outcome(1) by simp
    show "\<forall>k<length ids.
           put_product api (calls w @ bulk_requests upd (take k ids))
             (product_url (ids ! k)) (ProductUpdates upd) = Inr () \<longrightarrow>
           result_status (results ! k) = js ''success'' \<and> result_error (results ! k) = None"
      using loop(4) bulk_entry_outcome(2) by simp
  qed
qed

theorem bulk_edit_witness:
  "fst (post_api_bulk_edit (rejecting [] (js ''2'') (js ''Request failed with status code 404''))
          \<lparr>productIds = Some [js ''1'', js ''2'', js ''3''], updates = js ''{tags: sale}''\<rparr> started) =
     Some \<lparr>status_code = 200,
           json = BulkEdit
             [\<lparr>result_id = js ''1'', result_status = js ''success'', result_error = None\<rparr>,
              \<lparr>result_id = js ''2'', result_status = js ''error'',
               result_error = Some (js ''Request failed with status code 404'')\<rparr>,
              \<lparr>result_id = js ''3'', result_status = js ''success'', result_error = None\<rparr>]
             3 2\<rparr>"
proof -
  let ?api = "rejecting [] (js ''2'') (js ''Request failed with status code 404'')"
  let ?ids = "[js ''1'', js ''2'', js ''3'']"
  let ?upd = "js ''{tags: sale}''"
  from bulk_edit_isolates_failures [of ?api ?ids ?upd started]
  obtain results w' where
    r: "post_api_bulk_edit ?api \<lparr>productIds = Some ?ids, updates = ?upd\<rparr> started =
         (Some \<lparr>status_code = 200,
                json = BulkEdit results (length ?ids)
                  (length (filter (\<lambda>r. result_status r = js ''success'') results))\<rparr>, w')"
    and ids: "map result_id results = ?ids"
    and nth: "\<forall>k<length ?ids.
        results ! k = bulk_entry ?api ?upd (calls started @ bulk_requests ?upd (take k ?ids)) (?ids ! k)"
    by (elim exE conjE) (rule that)
  have len: "length results = 3"
    using ids by (metis length_map length_Cons list.size(3) numeral_3_eq_3)
  have e0: "results ! 0 = \<lparr>result_id = js ''1'', result_status = js ''success'', result_error = None\<rparr>"
    using nth by (simp add: bulk_entry_def rejecting_def product_url_def js_def)
  have e1: "results ! 1 = \<lparr>result_id = js ''2'', result_status = js ''error'',
      result_error = Some (js ''Request failed with status code 404'')\<rparr>"
    using nth by (simp add: bulk_entry_def rejecting_def)
  have e2: "results ! 2 = \<lparr>result_id = js ''3'', result_status = js ''success'', result_error = None\<rparr>"
    using nth by (simp add: bulk_entry_def rejecting_def product_url_def js_def)
  have "results = [results ! 0, results ! 1, results ! 2]"
    using len by (intro nth_equalityI) (auto simp: nth_Cons numeral_2_eq_2 split: nat.splits)
  then have res: "results =
      [\<lparr>result_id = js ''1'', result_status = js ''success'', result_error = None\<rparr>,
       \<lparr>result_id = js ''2'', result_status = js ''error'',
        result_error = Some (js ''Request failed with status code 404'')\<rparr>,
       \<lparr>result_id = js ''3'', result_status = js ''success'', result_error = None\<rparr>]"
    by (simp only: e0 e1 e2)
  show ?thesis
    unfolding r fst_conv res by (simp add: js_def)
qed


section \<open>Missing configuration\<close>

text \<open>
  Claim C7. When the store identifier or the access token is absent (or empty), each of
  the three automation routines returns at once and leaves the process state as it was:
  no request is sent and nothing is logged. \<open>GET /api/products\<close> answers with status
  200, the explanatory message and an empty product list, again without a request.
\<close>

theorem missing_configuration_short_circuits:
  assumes "\<not> configured cfg"
  shows "optimizeTitles api cfg w = w
       \<and> updateInventoryTags api cfg w = w
       \<and> generateSEODescriptions api cfg w = w
       \<and> get_api_products api cfg w =
           (\<lparr>status_code = 200,
             json = MessageProducts
               (js ''Shopify not configured. Set SHOPIFY_STORE and SHOPIFY_ACCESS_TOKEN env vars.'') []\<rparr>,
            w)"
  using assms
  by (auto simp: configured_def optimizeTitles_def updateInventoryTags_def
      generateSEODescriptions_def get_api_products_def)

theorem missing_configuration_witness:
  "\<not> configured no_store
   \<and> calls (optimizeTitles always_ok no_store started) = []
   \<and> calls (updateInventoryTags always_ok no_store started) = []
   \<and> calls (generateSEODescriptions always_ok no_store started) = []
   \<and> calls (snd (get_api_products always_ok no_store started)) = []
   \<and> status_code (fst (get_api_products always_ok no_store started)) = 200"
proof -
  have h: "\<not> configured no_store"
    by (simp add: configured_def no_store_def truthy_def)
  show ?thesis
    using h missing_configuration_short_circuits [OF h, of always_ok started]
    by (simp add: started_def)
qed


end
